theory Spec2Isabelle
  imports Complex_Main "HOL-Library.Multiset" "HOL-Library.Log_Nat" "HOL-Library.Word"
begin

unbundle bit_operations_syntax

section \<open>Python values used by clock\_api.py\<close>

subsection \<open>Strings and exceptions\<close>

text \<open>
  A Python \<open>str\<close> is a sequence of Unicode code points; the en dash (U+2013) and the em
  dash (U+2014) of \<open>compose\<close> are single code points, so a string is a list of code
  point numbers. \<open>str_of\<close> reads an ASCII literal.
\<close>

type_synonym pystr = "nat list"

definition str_of :: "string \<Rightarrow> pystr" where
  "str_of s = map of_char s"

text \<open>The exceptions that the modelled functions can raise.\<close>

datatype error = ValueError | IndexError | UnicodeEncodeError

subsection \<open>Floats\<close>

text \<open>
  A Python \<open>float\<close> is an IEEE 754 binary64 number. A finite one is modelled by its exact
  value, a rational. The three float operations of \<open>shuffle_with_seed\<close> are modelled
  with their rounding (to nearest, ties to even, 53 significant bits): true division of
  two integers, the conversion of an integer, and the product of two floats. Overflow
  and subnormal numbers are left out: the quotients are at least \<open>1/233280\<close> or zero,
  and the other values are list positions.
\<close>

type_synonym pyfloat = rat

definition round_half_even :: "int \<Rightarrow> int \<Rightarrow> int" where
  \<comment> \<open>the integer nearest to \<open>n / d\<close> for \<open>d > 0\<close>, a tie going to the even one\<close>
  "round_half_even n d =
     (let q = n div d; r = n mod d
      in if 2 * r < d then q else if d < 2 * r then q + 1
         else if even q then q else q + 1)"

definition binary_exponent :: "int \<Rightarrow> int \<Rightarrow> int" where
  \<comment> \<open>\<open>\<lfloor>log\<^sub>2 (p / q)\<rfloor>\<close> for \<open>p > 0\<close> and \<open>q > 0\<close>\<close>
  "binary_exponent p q =
     (let d = bitlen p - bitlen q
      in if q * 2 ^ nat d \<le> p * 2 ^ nat (- d) then d else d - 1)"

definition round_quotient :: "int \<Rightarrow> int \<Rightarrow> pyfloat" where
  \<comment> \<open>the binary64 number nearest to \<open>p / q\<close> for \<open>p > 0\<close> and \<open>q > 0\<close>:
      the quotient is scaled into \<open>[2\<^sup>5\<^sup>2, 2\<^sup>5\<^sup>3)\<close>, rounded to an integer and scaled back\<close>
  "round_quotient p q =
     (let k = 52 - binary_exponent p q;
          m = round_half_even (p * 2 ^ nat k) (q * 2 ^ nat (- k))
      in of_int (m * 2 ^ nat (- k)) / of_int (2 ^ nat k))"

definition float_quotient :: "int \<Rightarrow> int \<Rightarrow> pyfloat" where
  \<comment> \<open>\<open>p / q\<close> on two Python integers with \<open>q > 0\<close>: the correctly rounded quotient\<close>
  "float_quotient p q =
     (if p = 0 then 0
      else if p < 0 then - round_quotient (- p) q
      else round_quotient p q)"

definition to_float :: "rat \<Rightarrow> pyfloat" where
  \<comment> \<open>the binary64 number nearest to a rational\<close>
  "to_float x = (let (p, q) = quotient_of x in float_quotient p q)"

definition float_of_int :: "int \<Rightarrow> pyfloat" where
  \<comment> \<open>the conversion of the integer operand in \<open>float * int\<close>\<close>
  "float_of_int n = to_float (of_int n)"

definition float_mul :: "pyfloat \<Rightarrow> pyfloat \<Rightarrow> pyfloat" where
  \<comment> \<open>\<open>x * y\<close> on floats: the exact product, rounded\<close>
  "float_mul x y = to_float (x * y)"

definition int_of_float :: "pyfloat \<Rightarrow> int" where
  \<comment> \<open>\<open>int(x)\<close> on a float truncates towards zero\<close>
  "int_of_float x = (if 0 \<le> x then \<lfloor>x\<rfloor> else \<lceil>x\<rceil>)"

subsection \<open>Lists\<close>

text \<open>
  Subscription \<open>xs[i]\<close> and the assignment \<open>xs[i] = v\<close>: a negative index counts from the
  end, and an index outside \<open>[-len, len)\<close> raises \<open>IndexError\<close>.
\<close>

definition position :: "nat \<Rightarrow> int \<Rightarrow> nat option" where
  \<comment> \<open>the place that the index \<open>i\<close> denotes in a sequence of length \<open>n\<close>, if any\<close>
  "position n i =
     (if 0 \<le> i \<and> i < int n then Some (nat i)
      else if - int n \<le> i \<and> i < 0 then Some (nat (int n + i))
      else None)"

definition getitem :: "'a list \<Rightarrow> int \<Rightarrow> error + 'a" where
  "getitem xs i =
     (case position (length xs) i of None \<Rightarrow> Inl IndexError | Some k \<Rightarrow> Inr (xs ! k))"

definition setitem :: "'a list \<Rightarrow> int \<Rightarrow> 'a \<Rightarrow> error + 'a list" where
  "setitem xs i v =
     (case position (length xs) i of None \<Rightarrow> Inl IndexError | Some k \<Rightarrow> Inr (xs[k := v]))"

section \<open>The seeded generator\<close>

text \<open>
  \<open>SeededRandom\<close> has one field, \<open>seed\<close>. \<open>next\<close> stores the new state and returns the
  float \<open>self.seed / 233280\<close>; the model returns the float together with the new state.
\<close>

definition SeededRandom_next :: "int \<Rightarrow> pyfloat \<times> int" where
  "SeededRandom_next seed =
     (let seed' = (seed * 9301 + 49297) mod 233280
      in (float_quotient seed' 233280, seed'))"

text \<open>
  The first \<open>n\<close> values that a generator constructed with \<open>seed\<close> returns, one call
  of \<open>next\<close> after the other.
\<close>

fun outputs :: "int \<Rightarrow> nat \<Rightarrow> pyfloat list" where
  "outputs seed 0 = []"
| "outputs seed (Suc n) = (let (r, seed') = SeededRandom_next seed in r # outputs seed' n)"

section \<open>The daily schedule\<close>

text \<open>
  \<open>shuffled[i], shuffled[j] = shuffled[j], shuffled[i]\<close> reads \<open>shuffled[j]\<close>, then
  \<open>shuffled[i]\<close>, and then assigns position \<open>i\<close> and position \<open>j\<close> in this order.
\<close>

definition swap :: "'a list \<Rightarrow> int \<Rightarrow> int \<Rightarrow> error + 'a list" where
  "swap shuffled i j =
     (case getitem shuffled j of Inl e \<Rightarrow> Inl e | Inr a \<Rightarrow>
     (case getitem shuffled i of Inl e \<Rightarrow> Inl e | Inr b \<Rightarrow>
     (case setitem shuffled i a of Inl e \<Rightarrow> Inl e | Inr ys \<Rightarrow>
      setitem ys j b)))"

text \<open>
  The loop \<open>for i in range(len(shuffled) - 1, 0, -1)\<close>: \<open>shuffle_loop i\<close> runs the
  iterations \<open>i, i - 1, ..., 1\<close> from the generator state and the list reached so far.
\<close>

fun shuffle_loop :: "nat \<Rightarrow> int \<Rightarrow> 'a list \<Rightarrow> error + 'a list" where
  "shuffle_loop 0 seed shuffled = Inr shuffled"
| "shuffle_loop (Suc k) seed shuffled =
     (let (r, seed') = SeededRandom_next seed;
          i = int (Suc k);
          j = int_of_float (float_mul r (float_of_int (i + 1)))
      in case swap shuffled i j of
           Inl e \<Rightarrow> Inl e
         | Inr shuffled' \<Rightarrow> shuffle_loop k seed' shuffled')"

definition shuffle_with_seed :: "'a list \<Rightarrow> int \<Rightarrow> error + 'a list" where
  "shuffle_with_seed array seed = shuffle_loop (length array - 1) seed array"

definition tripled :: "'a list \<Rightarrow> 'a list" where
  \<comment> \<open>\<open>for item in ITEMS: tripled.extend([item, item, item])\<close>\<close>
  "tripled ITEMS = foldl (\<lambda>acc item. acc @ [item, item, item]) [] ITEMS"

text \<open>
  \<open>generate_daily_schedule\<close> reads the module's \<open>ITEMS\<close> and the clock
  (\<open>get_today_seed\<close>); both are arguments here.
\<close>

definition get_today_seed :: "int \<Rightarrow> int \<Rightarrow> int \<Rightarrow> int" where
  \<comment> \<open>\<open>int(now.strftime('%Y%m%d'))\<close> for a four-digit year\<close>
  "get_today_seed year month day = year * 10000 + month * 100 + day"

definition generate_daily_schedule :: "'a list \<Rightarrow> int \<Rightarrow> error + 'a list" where
  "generate_daily_schedule ITEMS seed = shuffle_with_seed (tripled ITEMS) seed"

section \<open>The schedule builder as the specification words it\<close>

text \<open>
  The specification's algorithm, written from its own sentences: the working sequence is
  the pool iterated once, each element pushed three times consecutively; the shuffle
  iterates \<open>i\<close> from \<open>length - 1\<close> down to \<open>1\<close>, draws \<open>j = floor(next() * (i + 1))\<close> and
  swaps the elements at \<open>i\<close> and \<open>j\<close>; \<open>next()\<close> updates the state to
  \<open>(state * 9301 + 49297) mod 233280\<close> and returns the float \<open>state / 233280\<close>.
\<close>

definition spec_working_sequence :: "'a list \<Rightarrow> 'a list" where
  "spec_working_sequence pool = concat (map (replicate 3) pool)"

definition spec_next :: "int \<Rightarrow> pyfloat \<times> int" where
  "spec_next state =
     (let state' = (state * 9301 + 49297) mod 233280
      in (float_quotient state' 233280, state'))"

fun spec_fisher_yates :: "nat \<Rightarrow> int \<Rightarrow> 'a list \<Rightarrow> 'a list" where
  "spec_fisher_yates 0 state xs = xs"
| "spec_fisher_yates (Suc k) state xs =
     (let (u, state') = spec_next state;
          i = Suc k;
          j = nat \<lfloor>float_mul u (float_of_int (int i + 1))\<rfloor>
      in spec_fisher_yates k state' (xs[i := xs ! j, j := xs ! i]))"

definition spec_build_schedule :: "'a list \<Rightarrow> int \<Rightarrow> 'a list" where
  "spec_build_schedule pool seed =
     (let working = spec_working_sequence pool
      in spec_fisher_yates (length working - 1) seed working)"

section \<open>Time resolution\<close>

subsection \<open>The interpreter and the clock\<close>

text \<open>
  What \<open>int()\<close> accepts beyond ASCII depends on the interpreter: the decimal digits of
  its Unicode database (\<open>unicode_decimal\<close>, asked for code points from 128 on, with
  values from 0 to 9) and the limit on the number of digits (\<open>int_max_str_digits\<close>,
  \<open>0\<close> for none).
  \<open>datetime.fromisoformat\<close> is library code; it returns a datetime or raises
  \<open>ValueError\<close>.
\<close>

record datetime =
  dt_year :: nat
  dt_month :: nat
  dt_day :: nat
  dt_hour :: nat
  dt_minute :: nat

record runtime =
  unicode_decimal :: "nat \<Rightarrow> nat option"
  int_max_str_digits :: nat
  fromisoformat :: "pystr \<Rightarrow> error + datetime"

text \<open>
  \<open>compose\<close> reads the clock up to three times: for the label (\<open>datetime.now()\<close> in its
  last branch), in \<open>get_current_minute\<close> and in \<open>get_today_seed\<close>.
\<close>

record clock =
  now_label :: datetime
  now_minute :: datetime
  now_seed :: datetime

subsection \<open>\<open>int(str)\<close> and \<open>str.split\<close>\<close>

definition is_space :: "nat \<Rightarrow> bool" where
  \<comment> \<open>the white space that \<open>int()\<close> skips: ASCII tab to carriage return and the blank,
      and the Unicode spaces outside ASCII\<close>
  "is_space c =
     ((9 \<le> c \<and> c \<le> 13) \<or> c = 32 \<or> c = 133 \<or> c = 160 \<or> c = 5760
      \<or> (8192 \<le> c \<and> c \<le> 8202) \<or> c = 8232 \<or> c = 8233 \<or> c = 8239
      \<or> c = 8287 \<or> c = 12288)"

definition digit_value :: "runtime \<Rightarrow> nat \<Rightarrow> nat option" where
  "digit_value rt c =
     (if c < 128 then (if 48 \<le> c \<and> c \<le> 57 then Some (c - 48) else None)
      else if is_space c then None
      else unicode_decimal rt c)"

definition is_digit :: "runtime \<Rightarrow> nat \<Rightarrow> bool" where
  "is_digit rt c = (digit_value rt c \<noteq> None)"

fun double_underscore :: "pystr \<Rightarrow> bool" where
  "double_underscore (a # b # cs) = ((a = 95 \<and> b = 95) \<or> double_underscore (b # cs))"
| "double_underscore cs = False"

definition decimal_value :: "runtime \<Rightarrow> pystr \<Rightarrow> int" where
  "decimal_value rt ds =
     foldl (\<lambda>acc c. acc * 10 + int (case digit_value rt c of Some d \<Rightarrow> d | None \<Rightarrow> 0)) 0 ds"

definition literal_char :: "runtime \<Rightarrow> nat \<Rightarrow> bool" where
  "literal_char rt c = (is_digit rt c \<or> c = 95)"

definition sign_and_rest :: "pystr \<Rightarrow> bool \<times> pystr" where
  \<comment> \<open>an optional \<open>+\<close> or \<open>-\<close>: whether the number is negative, and what follows the sign\<close>
  "sign_and_rest s =
     (case s of
        [] \<Rightarrow> (False, [])
      | c # cs \<Rightarrow> if c = 45 then (True, cs) else if c = 43 then (False, cs) else (False, s))"

definition well_formed_literal :: "pystr \<Rightarrow> bool" where
  \<comment> \<open>at least one digit, no underscore first or last, no two underscores in a row\<close>
  "well_formed_literal literal =
     (literal \<noteq> [] \<and> hd literal \<noteq> 95 \<and> last literal \<noteq> 95 \<and> \<not> double_underscore literal)"

definition within_digit_limit :: "runtime \<Rightarrow> pystr \<Rightarrow> bool" where
  "within_digit_limit rt digits =
     (int_max_str_digits rt = 0 \<or> length digits \<le> int_max_str_digits rt)"

definition py_int :: "runtime \<Rightarrow> pystr \<Rightarrow> error + int" where
  \<comment> \<open>\<open>int(s)\<close> in base 10: white space, an optional sign, digits with single underscores
      between them, white space\<close>
  "py_int rt s =
     (let (negative, s2) = sign_and_rest (dropWhile is_space s);
          literal = takeWhile (literal_char rt) s2;
          rest = dropWhile (literal_char rt) s2;
          digits = filter (\<lambda>c. c \<noteq> 95) literal
      in if well_formed_literal literal \<and> list_all is_space rest \<and> within_digit_limit rt digits
         then Inr (if negative then - decimal_value rt digits else decimal_value rt digits)
         else Inl ValueError)"

text \<open>
  What \<open>int()\<close> accepts, as a grammar: white space, an optional sign, a literal of
  digits with single underscores between them, white space; and not more digits than
  the interpreter allows.
\<close>

definition integer_literal :: "runtime \<Rightarrow> pystr \<Rightarrow> bool" where
  "integer_literal rt s =
     (\<exists>lead sign literal trail.
        s = lead @ sign @ literal @ trail
      \<and> list_all is_space lead \<and> (sign = [] \<or> sign = [43] \<or> sign = [45])
      \<and> well_formed_literal literal \<and> list_all (literal_char rt) literal
      \<and> list_all is_space trail
      \<and> within_digit_limit rt (filter (\<lambda>c. c \<noteq> 95) literal))"

fun split :: "nat \<Rightarrow> pystr \<Rightarrow> pystr list" where
  \<comment> \<open>\<open>s.split(sep)\<close> for a separator of one character\<close>
  "split sep [] = [[]]"
| "split sep (c # cs) =
     (if c = sep then [] # split sep cs
      else (case split sep cs of [] \<Rightarrow> [[c]] | p # ps \<Rightarrow> (c # p) # ps))"

definition replace :: "nat \<Rightarrow> pystr \<Rightarrow> pystr \<Rightarrow> pystr" where
  \<comment> \<open>\<open>s.replace(old, new)\<close> for \<open>old\<close> of one character\<close>
  "replace old new s = concat (map (\<lambda>c. if c = old then new else [c]) s)"

subsection \<open>Formatting numbers\<close>

fun decimal :: "nat \<Rightarrow> pystr" where
  "decimal n = (if n < 10 then [48 + n] else decimal (n div 10) @ [48 + n mod 10])"

declare decimal.simps [simp del]

definition format_02d :: "int \<Rightarrow> pystr" where
  \<comment> \<open>\<open>f'{n:02d}'\<close>, and \<open>%H\<close> and \<open>%M\<close> of \<open>strftime\<close>\<close>
  "format_02d n =
     (if n < 0 then 45 # decimal (nat (- n))
      else if n < 10 then [48, 48 + nat n]
      else decimal (nat n))"

definition strftime_HM :: "datetime \<Rightarrow> pystr" where
  "strftime_HM dt = format_02d (int (dt_hour dt)) @ [58] @ format_02d (int (dt_minute dt))"

definition get_current_minute :: "datetime \<Rightarrow> int" where
  "get_current_minute now = int (dt_hour now) * 60 + int (dt_minute now)"

subsection \<open>The three ways of \<open>compose\<close> to a label and a minute\<close>

text \<open>
  The request body is the dictionary that \<open>request.get_json\<close> returned, with string
  values. Lines 121 to 136 of \<open>compose\<close> set \<open>time24\<close> and \<open>minute\<close>.
\<close>

type_synonym body = "string \<rightharpoonup> pystr"

definition parse_time24 :: "runtime \<Rightarrow> pystr \<Rightarrow> error + int \<times> int" where
  \<comment> \<open>\<open>hours, mins = map(int, time24.split(':'))\<close>\<close>
  "parse_time24 rt t =
     (case split 58 t of
        [a, b] \<Rightarrow>
          (case py_int rt a of Inl e \<Rightarrow> Inl e | Inr hours \<Rightarrow>
          (case py_int rt b of Inl e \<Rightarrow> Inl e | Inr mins \<Rightarrow> Inr (hours, mins)))
      | _ \<Rightarrow> Inl ValueError)"

definition resolve_minute :: "runtime \<Rightarrow> clock \<Rightarrow> body \<Rightarrow> error + pystr \<times> int" where
  "resolve_minute rt clk body =
     (case body ''time24'' of
        Some t \<Rightarrow>
          (case parse_time24 rt t of
             Inl e \<Rightarrow> Inl e
           | Inr (hours, mins) \<Rightarrow> Inr (t, hours * 60 + mins))
      | None \<Rightarrow>
          (case body ''geolocate'' of
             Some g \<Rightarrow>
               (case fromisoformat rt (replace 90 (str_of ''+00:00'') g) of
                  Inl e \<Rightarrow> Inl e
                | Inr dt \<Rightarrow> Inr (strftime_HM dt, int (dt_hour dt) * 60 + int (dt_minute dt)))
           | None \<Rightarrow> Inr (strftime_HM (now_label clk), get_current_minute (now_minute clk))))"

section \<open>The poem identifier\<close>

subsection \<open>UTF-8\<close>

text \<open>
  \<open>str.encode()\<close> is UTF-8 and raises \<open>UnicodeEncodeError\<close> on a surrogate code point,
  which a JSON string can hold. Code points are below \<open>0x110000\<close>; bytes are numbers
  below 256.
\<close>

definition utf8_char :: "nat \<Rightarrow> error + nat list" where
  "utf8_char c =
     (if c < 128 then Inr [c]
      else if c < 2048 then Inr [192 + c div 64, 128 + c mod 64]
      else if 55296 \<le> c \<and> c \<le> 57343 then Inl UnicodeEncodeError
      else if c < 65536 then Inr [224 + c div 4096, 128 + c div 64 mod 64, 128 + c mod 64]
      else Inr [240 + c div 262144 mod 8, 128 + c div 4096 mod 64, 128 + c div 64 mod 64,
                128 + c mod 64])"

definition encodable :: "pystr \<Rightarrow> bool" where
  \<comment> \<open>no surrogate code point\<close>
  "encodable s = list_all (\<lambda>c. c < 55296 \<or> 57343 < c) s"

fun encode :: "pystr \<Rightarrow> error + nat list" where
  "encode [] = Inr []"
| "encode (c # cs) =
     (case utf8_char c of Inl e \<Rightarrow> Inl e | Inr bs \<Rightarrow>
     (case encode cs of Inl e \<Rightarrow> Inl e | Inr rest \<Rightarrow> Inr (bs @ rest)))"

subsection \<open>MD5 (RFC 1321)\<close>

type_synonym u32 = "32 word"

definition md5_K :: "u32 list" where
  "md5_K =
     [0xd76aa478, 0xe8c7b756, 0x242070db, 0xc1bdceee, 0xf57c0faf, 0x4787c62a, 0xa8304613,
      0xfd469501, 0x698098d8, 0x8b44f7af, 0xffff5bb1, 0x895cd7be, 0x6b901122, 0xfd987193,
      0xa679438e, 0x49b40821, 0xf61e2562, 0xc040b340, 0x265e5a51, 0xe9b6c7aa, 0xd62f105d,
      0x02441453, 0xd8a1e681, 0xe7d3fbc8, 0x21e1cde6, 0xc33707d6, 0xf4d50d87, 0x455a14ed,
      0xa9e3e905, 0xfcefa3f8, 0x676f02d9, 0x8d2a4c8a, 0xfffa3942, 0x8771f681, 0x6d9d6122,
      0xfde5380c, 0xa4beea44, 0x4bdecfa9, 0xf6bb4b60, 0xbebfbc70, 0x289b7ec6, 0xeaa127fa,
      0xd4ef3085, 0x04881d05, 0xd9d4d039, 0xe6db99e5, 0x1fa27cf8, 0xc4ac5665, 0xf4292244,
      0x432aff97, 0xab9423a7, 0xfc93a039, 0x655b59c3, 0x8f0ccc92, 0xffeff47d, 0x85845dd1,
      0x6fa87e4f, 0xfe2ce6e0, 0xa3014314, 0x4e0811a1, 0xf7537e82, 0xbd3af235, 0x2ad7d2bb,
      0xeb86d391]"

definition md5_s :: "nat list" where
  "md5_s =
     [7, 12, 17, 22, 7, 12, 17, 22, 7, 12, 17, 22, 7, 12, 17, 22,
      5, 9, 14, 20, 5, 9, 14, 20, 5, 9, 14, 20, 5, 9, 14, 20,
      4, 11, 16, 23, 4, 11, 16, 23, 4, 11, 16, 23, 4, 11, 16, 23,
      6, 10, 15, 21, 6, 10, 15, 21, 6, 10, 15, 21, 6, 10, 15, 21]"

definition md5_pad :: "nat list \<Rightarrow> nat list" where
  \<comment> \<open>a one bit, zeros up to 56 modulo 64, the length in bits as 8 bytes, low byte first\<close>
  "md5_pad msg =
     msg @ [128] @ replicate ((119 - length msg mod 64) mod 64) 0
     @ map (\<lambda>i. (8 * length msg) div 256 ^ i mod 256) [0..<8]"

definition le_word :: "nat list \<Rightarrow> u32" where
  "le_word bs = foldr (\<lambda>b w. of_nat b + 256 * w) bs 0"

fun chunks :: "nat \<Rightarrow> nat \<Rightarrow> 'a list \<Rightarrow> 'a list list" where
  \<comment> \<open>the first \<open>k\<close> pieces of length \<open>w\<close>\<close>
  "chunks w 0 xs = []"
| "chunks w (Suc k) xs = take w xs # chunks w k (drop w xs)"

definition md5_step :: "u32 list \<Rightarrow> nat \<Rightarrow> u32 \<times> u32 \<times> u32 \<times> u32 \<Rightarrow> u32 \<times> u32 \<times> u32 \<times> u32" where
  "md5_step M i st =
     (case st of (A, B, C, D) \<Rightarrow>
        let (F, g) =
              (if i < 16 then ((B AND C) OR (NOT B AND D), i)
               else if i < 32 then ((D AND B) OR (NOT D AND C), (5 * i + 1) mod 16)
               else if i < 48 then (B XOR C XOR D, (3 * i + 5) mod 16)
               else (C XOR (B OR NOT D), (7 * i) mod 16));
            F' = F + A + md5_K ! i + M ! g
        in (D, B + word_rotl (md5_s ! i) F', B, C))"

definition md5_block :: "u32 \<times> u32 \<times> u32 \<times> u32 \<Rightarrow> nat list \<Rightarrow> u32 \<times> u32 \<times> u32 \<times> u32" where
  "md5_block h block =
     (case h of (a0, b0, c0, d0) \<Rightarrow>
        let M = map le_word (chunks 4 16 block)
        in case fold (md5_step M) [0..<64] h of (A, B, C, D) \<Rightarrow>
             (a0 + A, b0 + B, c0 + C, d0 + D))"

definition word_bytes :: "u32 \<Rightarrow> nat list" where
  "word_bytes w = map (\<lambda>i. unat w div 256 ^ i mod 256) [0..<4]"

definition md5_digest :: "nat list \<Rightarrow> nat list" where
  "md5_digest msg =
     (let padded = md5_pad msg
      in case fold (\<lambda>block h. md5_block h block) (chunks 64 (length padded div 64) padded)
                (0x67452301, 0xefcdab89, 0x98badcfe, 0x10325476)
         of (a, b, c, d) \<Rightarrow> word_bytes a @ word_bytes b @ word_bytes c @ word_bytes d)"

definition hex_digit :: "nat \<Rightarrow> nat" where
  \<comment> \<open>the code point of a lower-case hexadecimal digit\<close>
  "hex_digit n = (if n < 10 then 48 + n else 87 + n)"

definition md5_hexdigest :: "nat list \<Rightarrow> pystr" where
  "md5_hexdigest msg = concat (map (\<lambda>b. [hex_digit (b div 16), hex_digit (b mod 16)]) (md5_digest msg))"

definition generate_poem_id :: "pystr \<Rightarrow> pystr \<Rightarrow> error + pystr" where
  "generate_poem_id t content' =
     (let combined = t @ [45] @ content'
      in case encode combined of Inl e \<Rightarrow> Inl e | Inr bytes \<Rightarrow> Inr (take 8 (md5_hexdigest bytes)))"

section \<open>The endpoints\<close>

record 'c item =
  content :: pystr
  card :: 'c

record response =
  poemId :: pystr
  time24 :: pystr
  poem :: pystr
  preferredFont :: pystr
  screensaver :: bool

text \<open>
  Lines 142 to 157 of \<open>compose\<close>: the en dash (U+2013) of the content becomes a hyphen,
  the poem is the label, an em dash (U+2014) between blanks, and the content.
\<close>

definition format_content :: "'c item \<Rightarrow> pystr \<Rightarrow> error + response" where
  "format_content current_item t =
     (let content' = replace 8211 [45] (content current_item);
          poem' = t @ [32, 8212, 32] @ content'
      in case generate_poem_id t poem' of
           Inl e \<Rightarrow> Inl e
         | Inr poem_id \<Rightarrow>
             Inr \<lparr>poemId = poem_id, time24 = t, poem = poem',
                  preferredFont = str_of ''INTER'', screensaver = False\<rparr>)"

text \<open>
  \<open>compose\<close> with \<open>REQUIRE_AUTH = False\<close>, as the module sets it: the authorization
  check is skipped.
\<close>

definition compose :: "runtime \<Rightarrow> clock \<Rightarrow> 'c item list \<Rightarrow> body \<Rightarrow> error + response" where
  "compose rt clk ITEMS body =
     (case resolve_minute rt clk body of
        Inl e \<Rightarrow> Inl e
      | Inr (t, minute) \<Rightarrow>
     (case generate_daily_schedule ITEMS
             (get_today_seed (int (dt_year (now_seed clk))) (int (dt_month (now_seed clk)))
                (int (dt_day (now_seed clk)))) of
        Inl e \<Rightarrow> Inl e
      | Inr schedule \<Rightarrow>
     (case getitem schedule minute of
        Inl e \<Rightarrow> Inl e
      | Inr current_item \<Rightarrow> format_content current_item t)))"

text \<open>
  \<open>clock_at_minute\<close> answers with status 400 outside \<open>[0, 1440)\<close> and with the entry of
  the schedule otherwise.
\<close>

datatype 'c minute_reply =
  Status400
| Entry (reply_time: pystr) (reply_content: pystr) (reply_card: 'c) (reply_minute: int)
    (reply_total_minutes: int)

definition clock_at_minute :: "'c item list \<Rightarrow> int \<Rightarrow> int \<Rightarrow> error + 'c minute_reply" where
  "clock_at_minute ITEMS seed minute =
     (if minute < 0 \<or> 1440 \<le> minute then Inr Status400
      else
     (case generate_daily_schedule ITEMS seed of
        Inl e \<Rightarrow> Inl e
      | Inr schedule \<Rightarrow>
     (case getitem schedule minute of
        Inl e \<Rightarrow> Inl e
      | Inr item \<Rightarrow>
          Inr (Entry (format_02d (minute div 60) @ [58] @ format_02d (minute mod 60))
                 (content item) (card item) minute 1440))))"

section \<open>Example inputs\<close>

text \<open>
  An interpreter that knows the ASCII digits only and limits \<open>int()\<close> to 4300 digits,
  a clock at 12:34 on 1 January 2024, and the pool of the specification's end-to-end
  example.
\<close>

definition ascii_runtime :: runtime where
  "ascii_runtime =
     \<lparr>unicode_decimal = (\<lambda>c. None), int_max_str_digits = 4300,
      fromisoformat = (\<lambda>s. Inl ValueError)\<rparr>"

definition new_year_noon :: datetime where
  "new_year_noon = \<lparr>dt_year = 2024, dt_month = 1, dt_day = 1, dt_hour = 12, dt_minute = 34\<rparr>"

definition example_clock :: clock where
  "example_clock =
     \<lparr>now_label = new_year_noon, now_minute = new_year_noon, now_seed = new_year_noon\<rparr>"

definition example_pool :: "nat item list" where
  "example_pool = [\<lparr>content = str_of ''A'', card = 1\<rparr>, \<lparr>content = str_of ''B'', card = 2\<rparr>]"

text \<open>A pool of one item whose content has an en dash, \<open>A\<close>, en dash, \<open>B\<close>.\<close>

definition dash_pool :: "nat item list" where
  "dash_pool = [\<lparr>content = [65, 8211, 66], card = 0\<rparr>]"

text \<open>A pool of ten items, \<open>A\<close> to \<open>J\<close>.\<close>

definition ten_pool :: "nat item list" where
  "ten_pool = map (\<lambda>n. \<lparr>content = [65 + n], card = n\<rparr>) [0..<10]"

section \<open>Rounding\<close>

text \<open>
  A rounded quotient is within the relative error \<open>2\<^sup>-\<^sup>5\<^sup>3\<close> of the exact one.
\<close>

lemma round_half_even_near:
  assumes "0 < d"
  shows "2 * \<bar>round_half_even n d * d - n\<bar> \<le> d"
proof -
  define q where "q = n div d"
  define r where "r = n mod d"
  have n: "n = q * d + r" by (simp add: q_def r_def)
  have r: "0 \<le> r" "r < d" using assms by (simp_all add: r_def)
  have "round_half_even n d = q \<and> 2 * r \<le> d \<or> round_half_even n d = q + 1 \<and> d \<le> 2 * r"
    unfolding round_half_even_def Let_def q_def[symmetric] r_def[symmetric] by auto
  then show ?thesis
  proof
    assume a: "round_half_even n d = q \<and> 2 * r \<le> d"
    then have "round_half_even n d * d - n = - r" by (simp add: n)
    with a r show ?thesis by simp
  next
    assume a: "round_half_even n d = q + 1 \<and> d \<le> 2 * r"
    then have "round_half_even n d * d - n = d - r" by (simp add: n algebra_simps)
    with a r show ?thesis by simp
  qed
qed

lemma round_half_even_nonneg: "0 < d \<Longrightarrow> 0 \<le> n \<Longrightarrow> 0 \<le> round_half_even n d"
  unfolding round_half_even_def Let_def
  by (auto simp: pos_imp_zdiv_nonneg_iff intro: add_nonneg_nonneg)

lemma scale_powi: "(2::rat) ^ nat k / 2 ^ nat (- k) = 2 powi k"
  by (cases "0 \<le> k") (simp_all add: power_int_def field_simps)

lemma binary_exponent_le:
  assumes "0 < p" "0 < q"
  shows "(2::rat) powi (binary_exponent p q) \<le> of_int p / of_int q"
proof -
  define d where "d = bitlen p - bitlen q"
  have q0: "(0::rat) < of_int q" using assms by simp
  show ?thesis
  proof (cases "q * 2 ^ nat d \<le> p * 2 ^ nat (- d)")
    case True
    then have "(of_int (q * 2 ^ nat d) :: rat) \<le> of_int (p * 2 ^ nat (- d))"
      by (simp only: of_int_le_iff)
    then have "(of_int q :: rat) * 2 ^ nat d \<le> of_int p * 2 ^ nat (- d)" by simp
    then have "(of_int q :: rat) * (2 ^ nat d / 2 ^ nat (- d)) \<le> of_int p"
      by (simp add: field_simps)
    then have "(of_int q :: rat) * 2 powi d \<le> of_int p" by (simp only: scale_powi)
    then have "(2::rat) powi d \<le> of_int p / of_int q"
      using q0 by (simp add: field_simps)
    moreover have "binary_exponent p q = d"
      using True by (simp add: binary_exponent_def d_def[symmetric])
    ultimately show ?thesis by simp
  next
    case False
    then have e: "binary_exponent p q = d - 1"
      by (simp add: binary_exponent_def d_def[symmetric])
    have bp: "2 ^ nat (bitlen p - 1) \<le> p" using bitlen_bounds[OF assms(1)] by simp
    have bq: "q < 2 ^ nat (bitlen q)" using bitlen_bounds[OF assms(2)] by simp
    have p1: "1 \<le> bitlen p" using assms(1) bitlen_eq_zero_iff[of p] bitlen_nonneg[of p] by linarith
    have "(2::rat) powi (bitlen p - 1) = 2 ^ nat (bitlen p - 1)"
      using p1 by (simp add: power_int_def)
    also have "\<dots> = of_int (2 ^ nat (bitlen p - 1))" by simp
    also have "\<dots> \<le> of_int p" using bp by (simp only: of_int_le_iff)
    finally have 1: "(2::rat) powi (bitlen p - 1) \<le> of_int p" .
    have "(of_int q :: rat) \<le> of_int (2 ^ nat (bitlen q))" using bq by (simp only: of_int_le_iff)
    also have "\<dots> = 2 powi (bitlen q)" using bitlen_nonneg[of q] by (simp add: power_int_def)
    finally have 2: "(of_int q :: rat) \<le> 2 powi (bitlen q)" .
    have "(2::rat) powi (d - 1) = 2 powi (bitlen p - 1) / 2 powi (bitlen q)"
      by (simp add: d_def power_int_diff)
    also have "\<dots> \<le> of_int p / 2 powi (bitlen q)"
      using 1 by (simp add: divide_right_mono)
    also have "\<dots> \<le> of_int p / of_int q"
      using 2 q0 assms(1) by (simp add: frac_le)
    finally show ?thesis using e by simp
  qed
qed

lemma round_quotient_error:
  assumes "0 < p" "0 < q"
  shows "\<bar>round_quotient p q - of_int p / of_int q\<bar> \<le> (of_int p / of_int q) / 2 ^ 53"
proof -
  define k where "k = 52 - binary_exponent p q"
  define num where "num = p * 2 ^ nat k"
  define den where "den = q * 2 ^ nat (- k)"
  define m where "m = round_half_even num den"
  define x :: rat where "x = of_int p / of_int q"
  define s :: rat where "s = 2 powi k"
  have den0: "0 < den" using assms by (simp add: den_def)
  have s0: "0 < s" by (simp add: s_def)
  have x0: "0 < x" using assms by (simp add: x_def)
  have nd: "(of_int num :: rat) / of_int den = x * s"
    by (simp add: num_def den_def x_def s_def scale_powi[symmetric])
  have rq: "round_quotient p q = of_int m / s"
    unfolding round_quotient_def Let_def k_def[symmetric] num_def[symmetric] den_def[symmetric]
      m_def[symmetric] s_def scale_powi[symmetric]
    by simp
  have "2 * \<bar>m * den - num\<bar> \<le> den" unfolding m_def by (rule round_half_even_near[OF den0])
  then have "(of_int (2 * \<bar>m * den - num\<bar>) :: rat) \<le> of_int den" by (simp only: of_int_le_iff)
  then have "2 * \<bar>(of_int m :: rat) * of_int den - of_int num\<bar> \<le> of_int den" by simp
  then have "2 * \<bar>(of_int m :: rat) - of_int num / of_int den\<bar> * of_int den \<le> 1 * of_int den"
  proof -
    assume a: "2 * \<bar>(of_int m :: rat) * of_int den - of_int num\<bar> \<le> of_int den"
    have "(of_int m :: rat) * of_int den - of_int num = (of_int m - of_int num / of_int den) * of_int den"
      using den0 by (simp add: field_simps)
    then have "\<bar>(of_int m :: rat) * of_int den - of_int num\<bar> = \<bar>of_int m - of_int num / of_int den\<bar> * of_int den"
      using den0 by (simp add: abs_mult)
    with a show ?thesis by simp
  qed
  then have "2 * \<bar>(of_int m :: rat) - of_int num / of_int den\<bar> \<le> 1"
    using den0 by simp
  then have half: "\<bar>of_int m - x * s\<bar> \<le> 1 / 2" by (simp add: nd)
  have "(2::rat) powi (binary_exponent p q) \<le> x"
    unfolding x_def by (rule binary_exponent_le[OF assms])
  then have "(2::rat) powi (binary_exponent p q) * s \<le> x * s"
    using s0 by simp
  moreover have "(2::rat) powi (binary_exponent p q) * s = 2 ^ 52"
    by (simp add: s_def k_def power_int_add[symmetric])
  ultimately have big: "2 ^ 52 \<le> x * s" by simp
  have "round_quotient p q - x = (of_int m - x * s) / s"
    using s0 by (simp add: rq field_simps)
  then have "\<bar>round_quotient p q - x\<bar> = \<bar>of_int m - x * s\<bar> / s"
    using s0 by simp
  also have "\<dots> \<le> (1 / 2) / s" using half s0 by (intro divide_right_mono) simp_all
  also have "\<dots> \<le> x / 2 ^ 53"
  proof -
    have "1 * 2 ^ 52 \<le> x * s" using big by simp
    then have "1 / s \<le> x / 2 ^ 52" using s0 by (simp add: field_simps)
    then show ?thesis by simp
  qed
  finally show ?thesis by (simp add: x_def)
qed

lemma round_quotient_nonneg:
  assumes "0 < p" "0 < q"
  shows "0 \<le> round_quotient p q"
proof -
  have "0 \<le> round_half_even (p * 2 ^ nat (52 - binary_exponent p q)) (q * 2 ^ nat (- (52 - binary_exponent p q)))"
    using assms by (intro round_half_even_nonneg) simp_all
  then show ?thesis
    unfolding round_quotient_def Let_def by (simp add: zero_le_divide_iff zero_le_mult_iff)
qed

lemma float_quotient_nonneg: "0 \<le> p \<Longrightarrow> 0 < q \<Longrightarrow> 0 \<le> float_quotient p q"
  by (simp add: float_quotient_def round_quotient_nonneg)

lemma float_quotient_upper:
  assumes "0 \<le> p" "0 < q"
  shows "float_quotient p q \<le> (of_int p / of_int q) * (1 + 1 / 2 ^ 53)"
proof (cases "p = 0")
  case True
  then show ?thesis by (simp add: float_quotient_def)
next
  case False
  with assms have p: "0 < p" by simp
  have "round_quotient p q - of_int p / of_int q \<le> (of_int p / of_int q) / 2 ^ 53"
    using round_quotient_error[OF p assms(2)] by linarith
  then have "round_quotient p q \<le> (of_int p / of_int q) * (1 + 1 / 2 ^ 53)"
    by (simp add: algebra_simps)
  then show ?thesis using p by (simp add: float_quotient_def)
qed

lemma to_float_nonneg:
  assumes "0 \<le> x"
  shows "0 \<le> to_float x"
proof -
  obtain p q where pq: "quotient_of x = (p, q)" by (cases "quotient_of x")
  have q: "0 < q" using pq by (rule quotient_of_denom_pos)
  have x: "x = of_int p / of_int q" using pq by (rule quotient_of_div)
  have "0 \<le> p" using assms q x by (simp add: zero_le_divide_iff)
  then show ?thesis using q by (simp add: to_float_def pq float_quotient_nonneg)
qed

lemma to_float_upper:
  assumes "0 \<le> x"
  shows "to_float x \<le> x * (1 + 1 / 2 ^ 53)"
proof -
  obtain p q where pq: "quotient_of x = (p, q)" by (cases "quotient_of x")
  have q: "0 < q" using pq by (rule quotient_of_denom_pos)
  have x: "x = of_int p / of_int q" using pq by (rule quotient_of_div)
  have "0 \<le> p" using assms q x by (simp add: zero_le_divide_iff)
  then have "float_quotient p q \<le> (of_int p / of_int q) * (1 + 1 / 2 ^ 53)"
    using q by (rule float_quotient_upper)
  then have "float_quotient p q \<le> x * (1 + 1 / 2 ^ 53)" by (simp only: x[symmetric])
  moreover have "to_float x = float_quotient p q" by (simp add: to_float_def pq)
  ultimately show ?thesis by (simp only:)
qed

section \<open>The generator and the draw stay in range\<close>

lemma next_state_range: "0 \<le> (seed * 9301 + 49297) mod 233280 \<and> (seed * 9301 + 49297) mod 233280 < (233280::int)"
  by simp

lemma unit_float_range:
  assumes "0 \<le> s" "s < 233280"
  shows "0 \<le> float_quotient s 233280 \<and> float_quotient s 233280 < 1"
proof
  show "0 \<le> float_quotient s 233280" using assms by (simp add: float_quotient_nonneg)
  have "float_quotient s 233280 \<le> (of_int s / of_int 233280) * (1 + 1 / 2 ^ 53)"
    using assms by (intro float_quotient_upper) simp_all
  also have "\<dots> \<le> (233279 / 233280) * (1 + 1 / 2 ^ 53)"
  proof -
    have "(of_int s :: rat) \<le> 233279" using assms by (simp add: of_int_le_iff[symmetric] del: of_int_le_iff) 
    then show ?thesis by simp
  qed
  also have "\<dots> < 1" by simp
  finally show "float_quotient s 233280 < 1" .
qed

lemma draw_range:
  assumes "0 \<le> s" "s < 233280" "0 < n"
  shows "0 \<le> int_of_float (float_mul (float_quotient s 233280) (float_of_int n))
       \<and> int_of_float (float_mul (float_quotient s 233280) (float_of_int n)) < n"
proof -
  define u :: rat where "u = 1 + 1 / 2 ^ 53"
  define r where "r = float_quotient s 233280"
  define f where "f = float_of_int n"
  have u0: "0 \<le> u" by (simp add: u_def)
  have r0: "0 \<le> r" using assms by (simp add: r_def float_quotient_nonneg)
  have "r \<le> (of_int s / of_int 233280) * (1 + 1 / 2 ^ 53)"
    unfolding r_def using assms by (intro float_quotient_upper) simp_all
  moreover have "(of_int s :: rat) \<le> 233279"
    using assms by (simp add: of_int_le_iff[symmetric] del: of_int_le_iff)
  ultimately have r1: "r \<le> (233279 / 233280) * u" by (simp add: u_def)
  have f0: "0 \<le> f" using assms by (simp add: f_def float_of_int_def to_float_nonneg)
  have f1: "f \<le> of_int n * u"
    unfolding f_def float_of_int_def u_def using assms by (intro to_float_upper) simp
  have p0: "0 \<le> float_mul r f" using r0 f0 by (simp add: float_mul_def to_float_nonneg)
  have "float_mul r f \<le> (r * f) * u"
    unfolding float_mul_def u_def using r0 f0 by (intro to_float_upper) simp
  also have "\<dots> \<le> (((233279 / 233280) * u) * (of_int n * u)) * u"
    using r1 f1 r0 f0 u0 by (intro mult_right_mono mult_mono) simp_all
  also have "\<dots> = of_int n * ((233279 / 233280) * u * u * u)" by simp
  also have "\<dots> < of_int n * 1"
  proof -
    have "(233279 / 233280) * u * u * u < 1" by (simp add: u_def)
    then show ?thesis using assms by (intro mult_strict_left_mono) simp_all
  qed
  finally have p1: "float_mul r f < of_int n" by simp
  have "int_of_float (float_mul r f) = \<lfloor>float_mul r f\<rfloor>" using p0 by (simp add: int_of_float_def)
  moreover have "0 \<le> \<lfloor>float_mul r f\<rfloor>" using p0 by simp
  moreover have "\<lfloor>float_mul r f\<rfloor> < n" using p1 by (simp add: floor_less_iff)
  ultimately show ?thesis by (simp add: r_def f_def)
qed

lemma draw_index:
  "0 \<le> int_of_float (float_mul (float_quotient ((seed * 9301 + 49297) mod 233280) 233280)
          (float_of_int (int (Suc k) + 1)))
   \<and> int_of_float (float_mul (float_quotient ((seed * 9301 + 49297) mod 233280) 233280)
          (float_of_int (int (Suc k) + 1))) \<le> int (Suc k)"
proof -
  have "0 \<le> (seed * 9301 + 49297) mod 233280" "(seed * 9301 + 49297) mod 233280 < 233280"
    by simp_all
  from draw_range[OF this, of "int (Suc k) + 1"] show ?thesis by simp
qed

lemma draw_floor:
  "int_of_float (float_mul (float_quotient ((seed * 9301 + 49297) mod 233280) 233280)
          (float_of_int (int (Suc k) + 1)))
   = \<lfloor>float_mul (float_quotient ((seed * 9301 + 49297) mod 233280) 233280)
          (float_of_int (int (Suc k) + 1))\<rfloor>"
proof -
  have "0 \<le> float_mul (float_quotient ((seed * 9301 + 49297) mod 233280) 233280)
          (float_of_int (int (Suc k) + 1))"
    by (simp add: float_mul_def float_of_int_def to_float_nonneg float_quotient_nonneg)
  then show ?thesis by (simp add: int_of_float_def)
qed

section \<open>The shuffle\<close>

lemma swap_in_range:
  assumes "i < length xs" "j < length xs"
  shows "swap xs (int i) (int j) = Inr (xs[i := xs ! j, j := xs ! i])"
  using assms by (simp add: swap_def getitem_def setitem_def position_def)

lemma tripled_concat: "tripled ITEMS = concat (map (replicate 3) ITEMS)"
proof -
  have "foldl (\<lambda>acc item. acc @ [item, item, item]) acc ITEMS = acc @ concat (map (replicate 3) ITEMS)" for acc :: "'a list"
    by (induction ITEMS arbitrary: acc) (simp_all add: numeral_3_eq_3)
  then show ?thesis by (simp add: tripled_def)
qed

lemma length_tripled: "length (tripled ITEMS) = 3 * length ITEMS"
  unfolding tripled_concat by (induction ITEMS) simp_all

lemma mset_tripled: "mset (tripled ITEMS) = mset ITEMS + mset ITEMS + mset ITEMS"
  unfolding tripled_concat by (induction ITEMS) (simp_all add: numeral_3_eq_3)

lemma shuffle_loop_spec:
  assumes "k < length xs \<or> k = 0"
  shows "shuffle_loop k seed xs = Inr (spec_fisher_yates k seed xs)"
  using assms
proof (induction k arbitrary: seed xs)
  case 0
  then show ?case by simp
next
  case (Suc k)
  then have len: "Suc k < length xs" by simp
  define s where "s = (seed * 9301 + 49297) mod 233280"
  define j where "j = int_of_float (float_mul (float_quotient s 233280) (float_of_int (int (Suc k) + 1)))"
  have jr: "0 \<le> j \<and> j \<le> int (Suc k)"
    unfolding j_def s_def by (rule draw_index)
  have jf: "\<lfloor>float_mul (float_quotient s 233280) (float_of_int (int (Suc k) + 1))\<rfloor> = j"
    unfolding j_def s_def by (rule draw_floor[symmetric])
  have jn: "nat j < length xs" using jr len by linarith
  have "swap xs (int (Suc k)) (int (nat j)) = Inr (xs[Suc k := xs ! nat j, nat j := xs ! Suc k])"
    by (rule swap_in_range[OF len jn])
  then have sw: "swap xs (int (Suc k)) j = Inr (xs[Suc k := xs ! nat j, nat j := xs ! Suc k])"
    using jr by simp
  have "shuffle_loop k s (xs[Suc k := xs ! nat j, nat j := xs ! Suc k])
      = Inr (spec_fisher_yates k s (xs[Suc k := xs ! nat j, nat j := xs ! Suc k]))"
    using len by (intro Suc.IH) simp
  moreover have "shuffle_loop (Suc k) seed xs = shuffle_loop k s (xs[Suc k := xs ! nat j, nat j := xs ! Suc k])"
    by (simp only: shuffle_loop.simps SeededRandom_next_def Let_def prod.case s_def[symmetric]
        j_def[symmetric] sw sum.case)
  moreover have "spec_fisher_yates (Suc k) seed xs = spec_fisher_yates k s (xs[Suc k := xs ! nat j, nat j := xs ! Suc k])"
    by (simp only: spec_fisher_yates.simps spec_next_def Let_def prod.case s_def[symmetric] jf)
  ultimately show ?case by simp
qed

lemma spec_fisher_yates_mset:
  assumes "k < length xs \<or> k = 0"
  shows "mset (spec_fisher_yates k seed xs) = mset xs \<and> length (spec_fisher_yates k seed xs) = length xs"
  using assms
proof (induction k arbitrary: seed xs)
  case 0
  then show ?case by simp
next
  case (Suc k)
  then have len: "Suc k < length xs" by simp
  define s where "s = (seed * 9301 + 49297) mod 233280"
  define j where "j = int_of_float (float_mul (float_quotient s 233280) (float_of_int (int (Suc k) + 1)))"
  have jr: "0 \<le> j \<and> j \<le> int (Suc k)"
    unfolding j_def s_def by (rule draw_index)
  have jf: "\<lfloor>float_mul (float_quotient s 233280) (float_of_int (int (Suc k) + 1))\<rfloor> = j"
    unfolding j_def s_def by (rule draw_floor[symmetric])
  have jn: "nat j < length xs" using jr len by linarith
  define ys where "ys = xs[Suc k := xs ! nat j, nat j := xs ! Suc k]"
  have ys: "mset ys = mset xs" "length ys = length xs"
    using len jn by (simp_all add: ys_def mset_swap)
  have "spec_fisher_yates (Suc k) seed xs = spec_fisher_yates k s ys"
    by (simp only: spec_fisher_yates.simps spec_next_def Let_def prod.case s_def[symmetric] jf ys_def)
  moreover have "mset (spec_fisher_yates k s ys) = mset ys \<and> length (spec_fisher_yates k s ys) = length ys"
    using len ys by (intro Suc.IH) simp
  ultimately show ?case using ys by simp
qed

lemma generate_daily_schedule_spec:
  "generate_daily_schedule ITEMS seed = Inr (spec_build_schedule ITEMS seed)"
proof -
  have "length (tripled ITEMS) - 1 < length (tripled ITEMS) \<or> length (tripled ITEMS) - 1 = 0"
    by (cases "length (tripled ITEMS)") simp_all
  then show ?thesis
    by (simp add: generate_daily_schedule_def shuffle_with_seed_def spec_build_schedule_def
        spec_working_sequence_def Let_def shuffle_loop_spec tripled_concat[symmetric])
qed

lemma spec_build_schedule_mset:
  "mset (spec_build_schedule ITEMS seed) = mset (tripled ITEMS)
   \<and> length (spec_build_schedule ITEMS seed) = 3 * length ITEMS"
proof -
  have "length (tripled ITEMS) - 1 < length (tripled ITEMS) \<or> length (tripled ITEMS) - 1 = 0"
    by (cases "length (tripled ITEMS)") simp_all
  from spec_fisher_yates_mset[OF this] show ?thesis
    by (simp add: spec_build_schedule_def spec_working_sequence_def Let_def tripled_concat[symmetric]
        length_tripled)
qed

lemma float_quotient_error:
  assumes "0 \<le> p" "0 < q"
  shows "\<bar>float_quotient p q - of_int p / of_int q\<bar> \<le> (of_int p / of_int q) / 2 ^ 53"
proof (cases "p = 0")
  case True
  then show ?thesis by (simp add: float_quotient_def)
next
  case False
  with assms have p: "0 < p" by simp
  then show ?thesis using round_quotient_error[OF p assms(2)] by (simp add: float_quotient_def)
qed

lemma generate_daily_schedule_total:
  "\<exists>schedule. generate_daily_schedule ITEMS seed = Inr schedule
     \<and> mset schedule = mset (tripled ITEMS) \<and> length schedule = 3 * length ITEMS"
  using spec_build_schedule_mset[of ITEMS seed] by (simp add: generate_daily_schedule_spec)

lemma outputs_range: "r \<in> set (outputs seed n) \<Longrightarrow> 0 \<le> r \<and> r < 1"
proof (induction n arbitrary: seed)
  case 0
  then show ?case by simp
next
  case (Suc n)
  have "0 \<le> (seed * 9301 + 49297) mod 233280" "(seed * 9301 + 49297) mod 233280 < 233280"
    by simp_all
  from unit_float_range[OF this] Suc show ?case
    by (auto simp: SeededRandom_next_def Let_def)
qed

lemma example_schedule: "generate_daily_schedule [1, 2 :: nat] 20240101 = Inr [2, 2, 1, 1, 2, 1]"
  by code_simp

text \<open>
  C1. Building the daily schedule twice with the same seed and the same pool yields the
  same sequence: the builder always returns a sequence, and the sequence is a function of
  the pool (contents and order) and the seed alone.
\<close>

theorem schedule_deterministic:
  assumes "ITEMS' = ITEMS" and "seed' = seed"
  shows "\<exists>schedule. generate_daily_schedule ITEMS seed = Inr schedule
           \<and> generate_daily_schedule ITEMS' seed' = Inr schedule"
  using assms generate_daily_schedule_total[of ITEMS seed] by auto

theorem schedule_deterministic_witness:
  "generate_daily_schedule [1, 2 :: nat] 20240101 = Inr [2, 2, 1, 1, 2, 1]
   \<and> generate_daily_schedule [1, 2 :: nat] (get_today_seed 2024 1 1) = Inr [2, 2, 1, 1, 2, 1]"
  using schedule_deterministic[of "[1, 2 :: nat]" "[1, 2]" "get_today_seed 2024 1 1" 20240101]
    example_schedule
  by (simp add: get_today_seed_def)

text \<open>
  C2. For every pool and every seed the built schedule is a permutation of the pool with
  each item three times: an item that is in the pool \<open>n\<close> times is in the schedule
  \<open>3 * n\<close> times, so each item of a pool without repetitions occurs exactly 3 times, and
  the length is three times the length of the pool, whether or not that is 1440.
\<close>

theorem schedule_triples_every_item:
  "\<exists>schedule. generate_daily_schedule ITEMS seed = Inr schedule
     \<and> mset schedule = mset ITEMS + mset ITEMS + mset ITEMS
     \<and> (\<forall>x. count_list schedule x = 3 * count_list ITEMS x)
     \<and> (distinct ITEMS \<longrightarrow> (\<forall>x\<in>set ITEMS. count_list schedule x = 3))
     \<and> length schedule = 3 * length ITEMS"
proof -
  obtain schedule where s: "generate_daily_schedule ITEMS seed = Inr schedule"
    "mset schedule = mset (tripled ITEMS)" "length schedule = 3 * length ITEMS"
    using generate_daily_schedule_total by blast
  have m: "mset schedule = mset ITEMS + mset ITEMS + mset ITEMS"
    using s(2) by (simp add: mset_tripled)
  have c: "count_list schedule x = 3 * count_list ITEMS x" for x
  proof -
    have "count (mset schedule) x = 3 * count (mset ITEMS) x" by (simp add: m)
    then show ?thesis by (simp only: count_mset)
  qed
  have "count_list schedule x = 3" if "distinct ITEMS" "x \<in> set ITEMS" for x
  proof -
    have "count (mset ITEMS) x = 1" using that by (simp add: distinct_count_atmost_1)
    then have "count_list ITEMS x = 1" by (simp only: count_mset)
    then show ?thesis using c[of x] by simp
  qed
  with s(1,3) m c show ?thesis by blast
qed

theorem schedule_triples_every_item_witness:
  "\<exists>schedule. generate_daily_schedule [1, 2 :: nat] 20240101 = Inr schedule
     \<and> count_list schedule 1 = 3 \<and> count_list schedule 2 = 3 \<and> length schedule = 6"
  using schedule_triples_every_item[of "[1, 2 :: nat]" 20240101] by auto

text \<open>
  C3. The schedule builder is the algorithm of the specification: the working sequence
  is the pool with each item pushed three times consecutively in pool order, and the
  shuffle is the Fisher-Yates loop over \<open>i\<close> from \<open>length - 1\<close> down to \<open>1\<close> that draws
  \<open>j = floor(next() * (i + 1))\<close> from the generator started at the seed and swaps the
  elements at \<open>i\<close> and \<open>j\<close>; no step of the code raises.
\<close>

theorem schedule_is_spec_algorithm:
  "tripled ITEMS = spec_working_sequence ITEMS
   \<and> shuffle_with_seed (tripled ITEMS) seed
       = Inr (spec_fisher_yates (length (tripled ITEMS) - 1) seed (tripled ITEMS))
   \<and> generate_daily_schedule ITEMS seed = Inr (spec_build_schedule ITEMS seed)"
proof -
  have "length (tripled ITEMS) - 1 < length (tripled ITEMS) \<or> length (tripled ITEMS) - 1 = 0"
    by (cases "length (tripled ITEMS)") simp_all
  then show ?thesis
    by (simp add: tripled_concat spec_working_sequence_def shuffle_with_seed_def
        shuffle_loop_spec generate_daily_schedule_spec)
qed

theorem schedule_is_spec_algorithm_witness:
  "spec_build_schedule [1, 2 :: nat] 20240101 = [2, 2, 1, 1, 2, 1]"
  using schedule_is_spec_algorithm[of "[1, 2 :: nat]" 20240101] example_schedule by simp

text \<open>
  C6. A call of \<open>SeededRandom.next\<close> sets the state to
  \<open>(state * 9301 + 49297) mod 233280\<close> and returns the float \<open>state / 233280\<close> of the new
  state, which is in \<open>[0, 1)\<close> and within \<open>2\<^sup>-\<^sup>5\<^sup>3\<close> of the exact quotient; the outputs of
  a generator are all in \<open>[0, 1)\<close>, and two generators with the same seed return the same
  outputs, however many are drawn.
\<close>

theorem seeded_random_next:
  "SeededRandom_next seed
     = (float_quotient ((seed * 9301 + 49297) mod 233280) 233280, (seed * 9301 + 49297) mod 233280)
   \<and> 0 \<le> fst (SeededRandom_next seed) \<and> fst (SeededRandom_next seed) < 1
   \<and> \<bar>fst (SeededRandom_next seed) - of_int (snd (SeededRandom_next seed)) / 233280\<bar> \<le> 1 / 2 ^ 53
   \<and> (\<forall>r\<in>set (outputs seed n). 0 \<le> r \<and> r < 1)
   \<and> (seed' = seed \<longrightarrow> outputs seed' n = outputs seed n)"
proof -
  define s where "s = (seed * 9301 + 49297) mod 233280"
  have r: "0 \<le> s" "s < 233280" by (simp_all add: s_def)
  have n: "SeededRandom_next seed = (float_quotient s 233280, s)"
    by (simp add: SeededRandom_next_def Let_def s_def)
  have "\<bar>float_quotient s 233280 - of_int s / of_int 233280\<bar> \<le> (of_int s / of_int 233280) / 2 ^ 53"
    using r by (intro float_quotient_error) simp_all
  moreover have "(of_int s / of_int 233280 :: rat) / 2 ^ 53 \<le> 1 / 2 ^ 53"
  proof -
    have "(of_int s :: rat) \<le> 233280" using r by (simp add: of_int_le_iff[symmetric] del: of_int_le_iff)
    then show ?thesis by simp
  qed
  ultimately have e: "\<bar>float_quotient s 233280 - of_int s / 233280\<bar> \<le> 1 / 2 ^ 53" by simp
  show ?thesis
    using unit_float_range[OF r] e outputs_range[of _ seed n]
    by (simp add: n s_def[symmetric])
qed

theorem seeded_random_next_witness:
  "snd (SeededRandom_next 20240101) = 1178 \<and> 0 \<le> fst (SeededRandom_next 20240101)
   \<and> fst (SeededRandom_next 20240101) < 1
   \<and> outputs 20240101 2 = outputs (20240101 + 0) 2"
proof -
  note t = seeded_random_next[of 20240101 2 "20240101 + 0"]
  have n: "SeededRandom_next 20240101 = (float_quotient 1178 233280, 1178)"
    using t by simp
  have "0 \<le> fst (SeededRandom_next 20240101) \<and> fst (SeededRandom_next 20240101) < 1"
    using t by blast
  then show ?thesis using n by simp
qed

section \<open>Looking a minute up\<close>

lemma getitem_nonneg:
  "0 \<le> i \<Longrightarrow> getitem xs i = (if i < int (length xs) then Inr (xs ! nat i) else Inl IndexError)"
  by (simp add: getitem_def position_def)

lemma getitem_negative:
  "i < 0 \<Longrightarrow> getitem xs i
     = (if - int (length xs) \<le> i then Inr (xs ! nat (int (length xs) + i)) else Inl IndexError)"
  by (simp add: getitem_def position_def)

lemma getitem_member: "getitem xs i = Inr x \<Longrightarrow> x \<in> set xs"
  by (auto simp: getitem_def position_def split: if_splits)

text \<open>
  C7. For a minute \<open>m\<close> that passes the guard of \<open>clock_at_minute\<close> (\<open>0 \<le> m < 1440\<close>) the
  lookup \<open>schedule[m]\<close> is in bounds exactly when \<open>m < 3 * len(ITEMS)\<close>: from
  \<open>3 * len(ITEMS)\<close> on the endpoint raises \<open>IndexError\<close>, below it answers with the entry
  at \<open>m\<close>; with fewer than 480 items minute 1439 is out of bounds.
\<close>

theorem minute_lookup_bounds:
  assumes "0 \<le> m" and "m < 1440"
  shows "(clock_at_minute ITEMS seed m = Inl IndexError \<longleftrightarrow> 3 * int (length ITEMS) \<le> m)
       \<and> (\<exists>schedule. generate_daily_schedule ITEMS seed = Inr schedule
             \<and> length schedule = 3 * length ITEMS
             \<and> (getitem schedule m = Inl IndexError \<longleftrightarrow> 3 * int (length ITEMS) \<le> m)
             \<and> (m < 3 * int (length ITEMS) \<longrightarrow>
                   getitem schedule m = Inr (schedule ! nat m)
                 \<and> clock_at_minute ITEMS seed m
                     = Inr (Entry (format_02d (m div 60) @ [58] @ format_02d (m mod 60))
                              (content (schedule ! nat m)) (card (schedule ! nat m)) m 1440)))
       \<and> (length ITEMS < 480 \<longrightarrow> clock_at_minute ITEMS seed 1439 = Inl IndexError)"
proof -
  obtain schedule where s: "generate_daily_schedule ITEMS seed = Inr schedule"
    "length schedule = 3 * length ITEMS"
    using generate_daily_schedule_total by blast
  have g: "getitem schedule i = (if i < 3 * int (length ITEMS) then Inr (schedule ! nat i) else Inl IndexError)"
    if "0 \<le> i" for i
    using that s(2) by (simp add: getitem_nonneg)
  have c: "clock_at_minute ITEMS seed i
      = (if i < 3 * int (length ITEMS)
         then Inr (Entry (format_02d (i div 60) @ [58] @ format_02d (i mod 60))
                              (content (schedule ! nat i)) (card (schedule ! nat i)) i 1440)
         else Inl IndexError)"
    if "0 \<le> i" "i < 1440" for i
    using that by (simp add: clock_at_minute_def s(1) g)
  show ?thesis
    using assms s c[of m] c[of 1439] g[of m] by auto
qed

theorem minute_lookup_bounds_witness:
  "clock_at_minute example_pool 20240101 5 \<noteq> Inl IndexError
   \<and> clock_at_minute example_pool 20240101 6 = Inl IndexError
   \<and> clock_at_minute example_pool 20240101 1439 = Inl IndexError"
  using minute_lookup_bounds[of 5 example_pool 20240101]
    minute_lookup_bounds[of 6 example_pool 20240101]
  by (simp add: example_pool_def)

section \<open>Explicit time strings\<close>

lemma split_nonempty: "split sep t \<noteq> []"
  by (induction t) (auto split: list.splits)

lemma split_one: "split sep t = [b] \<longleftrightarrow> b = t \<and> sep \<notin> set t"
proof (induction t arbitrary: b)
  case Nil
  then show ?case by auto
next
  case (Cons c cs)
  show ?case
  proof (cases "c = sep")
    case True
    then show ?thesis by (simp add: split_nonempty)
  next
    case False
    obtain p ps where ps: "split sep cs = p # ps"
      using split_nonempty[of sep cs] by (cases "split sep cs") auto
    show ?thesis using False Cons[of p] Cons[of cs] ps by auto
  qed
qed

lemma split_two:
  "split sep t = [a, b] \<longleftrightarrow> t = a @ sep # b \<and> sep \<notin> set a \<and> sep \<notin> set b"
proof (induction t arbitrary: a)
  case Nil
  then show ?case by auto
next
  case (Cons c cs)
  show ?case
  proof (cases "c = sep")
    case True
    then show ?thesis using split_one[of sep cs b] by (cases a) auto
  next
    case False
    obtain p ps where ps: "split sep cs = p # ps"
      using split_nonempty[of sep cs] by (cases "split sep cs") auto
    show ?thesis
    proof (cases a)
      case Nil
      then show ?thesis using False ps by auto
    next
      case (Cons a0 as)
      then show ?thesis using False ps Cons.IH[of as] by auto
    qed
  qed
qed

lemma py_int_error: "py_int rt s = Inl e \<Longrightarrow> e = ValueError"
  unfolding py_int_def Let_def by (simp split: prod.splits if_splits)

lemma parse_time24_error: "parse_time24 rt t = Inl e \<Longrightarrow> e = ValueError"
  by (auto simp: parse_time24_def split: list.splits sum.splits dest: py_int_error)

lemma parse_time24_success:
  "parse_time24 rt t = Inr (hours, mins)
   \<longleftrightarrow> (\<exists>a b. split 58 t = [a, b] \<and> py_int rt a = Inr hours \<and> py_int rt b = Inr mins)"
  by (auto simp: parse_time24_def split: list.splits sum.splits)

lemma decimal_two: "10 \<le> n \<Longrightarrow> n < 100 \<Longrightarrow> decimal n = [48 + n div 10, 48 + n mod 10]"
proof -
  assume a: "10 \<le> n" "n < 100"
  then have "n div 10 < 10" by simp
  then have "decimal (n div 10) = [48 + n div 10]" by (subst decimal.simps) simp
  then show ?thesis using a by (subst decimal.simps) simp
qed

lemma format_02d_two: "n < 100 \<Longrightarrow> format_02d (int n) = [48 + n div 10, 48 + n mod 10]"
  by (cases "n < 10") (simp_all add: format_02d_def decimal_two)

lemma digit_value_ascii: "d < 10 \<Longrightarrow> digit_value rt (48 + d) = Some d"
  by (simp add: digit_value_def)

lemma not_space_digit: "d < 10 \<Longrightarrow> \<not> is_space (48 + d)"
  by (simp add: is_space_def)


lemma py_int_two_digits:
  assumes "int_max_str_digits rt = 0 \<or> 2 \<le> int_max_str_digits rt" "a < 10" "b < 10"
  shows "py_int rt [48 + a, 48 + b] = Inr (int (a * 10 + b))"
proof -
  have sp: "dropWhile is_space [48 + a, 48 + b] = [48 + a, 48 + b]"
    using assms by (simp add: not_space_digit)
  have sg: "sign_and_rest [48 + a, 48 + b] = (False, [48 + a, 48 + b])"
    by (simp add: sign_and_rest_def)
  have lc: "literal_char rt (48 + a)" "literal_char rt (48 + b)"
    using assms by (simp_all add: literal_char_def is_digit_def digit_value_ascii)
  have tk: "takeWhile (literal_char rt) [48 + a, 48 + b] = [48 + a, 48 + b]"
    "dropWhile (literal_char rt) [48 + a, 48 + b] = []"
    using lc by simp_all
  have wf: "well_formed_literal [48 + a, 48 + b]"
    using assms by (simp add: well_formed_literal_def)
  have lim: "within_digit_limit rt [48 + a, 48 + b]"
    using assms by (auto simp: within_digit_limit_def)
  have dv: "decimal_value rt [48 + a, 48 + b] = int (a * 10 + b)"
    using assms by (simp add: decimal_value_def digit_value_ascii)
  have fl: "filter (\<lambda>c. c \<noteq> 95) [48 + a, 48 + b] = [48 + a, 48 + b]"
    using assms by simp
  show ?thesis
    unfolding py_int_def sp sg prod.case Let_def tk fl
    using wf lim dv by simp
qed

lemma py_int_format_02d:
  assumes "int_max_str_digits rt = 0 \<or> 2 \<le> int_max_str_digits rt" "n < 100"
  shows "py_int rt (format_02d (int n)) = Inr (int n)"
proof -
  have "n div 10 < 10" "n mod 10 < 10" using assms by simp_all
  from py_int_two_digits[OF assms(1) this] show ?thesis
    using assms by (simp add: format_02d_two)
qed

lemma colon_free_format_02d: "n < 100 \<Longrightarrow> 58 \<notin> set (format_02d (int n))"
proof -
  assume "n < 100"
  moreover from this have "n div 10 < 10" by simp
  moreover have "n mod 10 < 10" by simp
  ultimately show ?thesis by (simp add: format_02d_two)
qed

lemma parse_time24_label:
  assumes "int_max_str_digits rt = 0 \<or> 2 \<le> int_max_str_digits rt" "h < 100" "m < 100"
  shows "parse_time24 rt (format_02d (int h) @ [58] @ format_02d (int m)) = Inr (int h, int m)"
proof -
  have "split 58 (format_02d (int h) @ [58] @ format_02d (int m)) = [format_02d (int h), format_02d (int m)]"
    using assms by (simp add: split_two colon_free_format_02d)
  then show ?thesis
    using assms by (simp add: parse_time24_def py_int_format_02d)
qed

lemma parse_time24_failure:
  "parse_time24 rt t = Inl ValueError
   \<longleftrightarrow> \<not> (\<exists>a b hours mins. split 58 t = [a, b] \<and> py_int rt a = Inr hours \<and> py_int rt b = Inr mins)"
proof (cases "parse_time24 rt t")
  case (Inl e)
  then have "e = ValueError" by (rule parse_time24_error)
  with Inl show ?thesis using parse_time24_success[of rt t] by auto
next
  case (Inr hm)
  then show ?thesis using parse_time24_success[of rt t "fst hm" "snd hm"] by auto
qed

lemma twenty_five: "parse_time24 ascii_runtime (str_of ''25:00'') = Inr (25, 0)"
proof -
  have "format_02d 25 = [50, 53]" "format_02d 0 = [48, 48]"
    using format_02d_two[of 25] format_02d_two[of 0] by simp_all
  moreover have "parse_time24 ascii_runtime (format_02d (int 25) @ [58] @ format_02d (int 0)) = Inr (int 25, int 0)"
    by (rule parse_time24_label) (simp_all add: ascii_runtime_def)
  ultimately show ?thesis by (simp add: str_of_def)
qed

lemma bogus: "parse_time24 rt (str_of ''bogus'') = Inl ValueError"
proof -
  have "split 58 (str_of ''bogus'') = [str_of ''bogus'']"
    by (simp add: split_one str_of_def)
  then show ?thesis by (simp add: parse_time24_def)
qed

lemma py_int_chars:
  assumes "py_int rt s = Inr v" and "c \<in> set s"
  shows "is_space c \<or> c = 43 \<or> c = 45 \<or> literal_char rt c"
proof -
  define s1 where "s1 = dropWhile is_space s"
  obtain negative s2 where sg: "sign_and_rest s1 = (negative, s2)"
    by (cases "sign_and_rest s1")
  have ok: "list_all is_space (dropWhile (literal_char rt) s2)"
    using assms(1) unfolding py_int_def s1_def[symmetric] sg prod.case Let_def
    by (simp split: if_splits)
  have s: "s = takeWhile is_space s @ s1" by (simp add: s1_def)
  have s1: "s1 = s2 \<or> s1 = 43 # s2 \<or> s1 = 45 # s2"
    using sg by (auto simp: sign_and_rest_def split: list.splits if_splits)
  have s2: "s2 = takeWhile (literal_char rt) s2 @ dropWhile (literal_char rt) s2" by simp
  have "c \<in> set (takeWhile is_space s) \<or> c \<in> set s1" using assms(2) s by (metis Un_iff set_append)
  then show ?thesis
  proof
    assume "c \<in> set (takeWhile is_space s)"
    then show ?thesis by (auto dest: set_takeWhileD)
  next
    assume "c \<in> set s1"
    then have "c = 43 \<or> c = 45 \<or> c \<in> set s2" using s1 by auto
    moreover have "is_space c \<or> literal_char rt c" if "c \<in> set s2"
    proof -
      from that s2 have "c \<in> set (takeWhile (literal_char rt) s2) \<or> c \<in> set (dropWhile (literal_char rt) s2)"
        by (metis Un_iff set_append)
      then show ?thesis using ok by (auto dest: set_takeWhileD simp: list_all_iff)
    qed
    ultimately show ?thesis by blast
  qed
qed

lemma literal_char_not_space: "literal_char rt c \<Longrightarrow> \<not> is_space c"
  by (auto simp: literal_char_def is_digit_def digit_value_def is_space_def split: if_splits)

lemma literal_char_not_sign: "literal_char rt c \<Longrightarrow> c \<noteq> 43 \<and> c \<noteq> 45"
  by (auto simp: literal_char_def is_digit_def digit_value_def split: if_splits)

lemma py_int_accepts:
  assumes "list_all is_space lead" and "sign = [] \<or> sign = [43] \<or> sign = [45]"
    and "well_formed_literal literal" and "list_all (literal_char rt) literal"
    and "list_all is_space trail"
    and "within_digit_limit rt (filter (\<lambda>c. c \<noteq> 95) literal)"
  shows "\<exists>v. py_int rt (lead @ sign @ literal @ trail) = Inr v"
proof -
  obtain c cs where lit: "literal = c # cs" using assms(3) by (cases literal) (auto simp: well_formed_literal_def)
  have c: "literal_char rt c" using assms(4) lit by simp
  have d1: "dropWhile is_space (lead @ sign @ literal @ trail) = sign @ literal @ trail"
  proof -
    have "dropWhile is_space (lead @ sign @ literal @ trail) = dropWhile is_space (sign @ literal @ trail)"
      using assms(1) by (intro dropWhile_append2) (simp add: list_all_iff)
    also have "\<dots> = sign @ literal @ trail"
      using assms(2) literal_char_not_space[OF c] by (auto simp: lit is_space_def)
    finally show ?thesis .
  qed
  have sg: "sign_and_rest (sign @ literal @ trail) = (sign = [45], literal @ trail)"
    using assms(2) literal_char_not_sign[OF c] by (auto simp: sign_and_rest_def lit)
  have tr: "takeWhile (literal_char rt) trail = []"
    using assms(5) literal_char_not_space[of rt] by (cases trail) auto
  have tk: "takeWhile (literal_char rt) (literal @ trail) = literal"
    using assms(4) tr by (simp add: list_all_iff)
  have dr: "dropWhile (literal_char rt) (literal @ trail) = trail"
  proof -
    have "dropWhile (literal_char rt) (literal @ trail) = dropWhile (literal_char rt) trail"
      using assms(4) by (intro dropWhile_append2) (simp add: list_all_iff)
    also have "\<dots> = trail" using assms(5) literal_char_not_space[of rt] by (cases trail) auto
    finally show ?thesis .
  qed
  show ?thesis
    unfolding py_int_def d1 sg prod.case Let_def tk dr
    using assms(3,5,6) by simp
qed

lemma py_int_grammar:
  assumes "py_int rt s = Inr v"
  shows "integer_literal rt s"
proof -
  define s1 where "s1 = dropWhile is_space s"
  obtain negative s2 where sg: "sign_and_rest s1 = (negative, s2)"
    by (cases "sign_and_rest s1")
  define literal where "literal = takeWhile (literal_char rt) s2"
  define trail where "trail = dropWhile (literal_char rt) s2"
  have ok: "well_formed_literal literal" "list_all is_space trail"
    "within_digit_limit rt (filter (\<lambda>c. c \<noteq> 95) literal)"
    using assms unfolding py_int_def s1_def[symmetric] sg prod.case Let_def
      literal_def[symmetric] trail_def[symmetric]
    by (simp_all split: if_splits)
  obtain sign where sign: "s1 = sign @ s2" "sign = [] \<or> sign = [43] \<or> sign = [45]"
    using sg by (auto simp: sign_and_rest_def split: list.splits if_splits)
  have "s = takeWhile is_space s @ s1" by (simp add: s1_def)
  then have "s = takeWhile is_space s @ sign @ literal @ trail"
    using sign(1) by (simp add: literal_def trail_def)
  moreover have "list_all is_space (takeWhile is_space s)"
    by (auto simp: list_all_iff dest: set_takeWhileD)
  moreover have "list_all (literal_char rt) literal"
    by (auto simp: literal_def list_all_iff dest: set_takeWhileD)
  ultimately show ?thesis
    unfolding integer_literal_def using sign(2) ok by blast
qed

lemma py_int_accepts_iff: "(\<exists>v. py_int rt s = Inr v) \<longleftrightarrow> integer_literal rt s"
proof
  assume "\<exists>v. py_int rt s = Inr v"
  then show "integer_literal rt s" using py_int_grammar by blast
next
  assume "integer_literal rt s"
  then show "\<exists>v. py_int rt s = Inr v"
    unfolding integer_literal_def using py_int_accepts by blast
qed

lemma seven_five: "parse_time24 ascii_runtime (str_of ''7:5'') = Inr (7, 5)"
proof -
  have sp: "split 58 (str_of ''7:5'') = [str_of ''7'', str_of ''5'']"
    by (simp add: split_two str_of_def)
  have a: "py_int ascii_runtime (str_of ''7'') = Inr 7"
    by (simp add: py_int_def str_of_def is_space_def sign_and_rest_def literal_char_def is_digit_def
        digit_value_def well_formed_literal_def within_digit_limit_def decimal_value_def
        ascii_runtime_def)
  have b: "py_int ascii_runtime (str_of ''5'') = Inr 5"
    by (simp add: py_int_def str_of_def is_space_def sign_and_rest_def literal_char_def is_digit_def
        digit_value_def well_formed_literal_def within_digit_limit_def decimal_value_def
        ascii_runtime_def)
  show ?thesis by (simp add: parse_time24_def sp a b)
qed

lemma py_int_no_colon: "py_int rt s = Inr v \<Longrightarrow> 58 \<notin> set s"
proof
  assume "py_int rt s = Inr v" and "58 \<in> set s"
  from py_int_chars[OF this] show False
    by (simp add: is_space_def literal_char_def is_digit_def digit_value_def)
qed

lemma resolve_minute_failure_iff:
  assumes "body ''time24'' = Some t"
  shows "resolve_minute rt clk body = Inl ValueError
            \<longleftrightarrow> \<not> (\<exists>a b. t = a @ [58] @ b \<and> 58 \<notin> set a \<and> 58 \<notin> set b
                     \<and> integer_literal rt a \<and> integer_literal rt b)"
proof -
  have 1: "resolve_minute rt clk body = Inl e \<longleftrightarrow> parse_time24 rt t = Inl e" for e
    using assms by (simp add: resolve_minute_def split: sum.splits)
  have 3: "(\<exists>a b hours mins. t = a @ 58 # b \<and> 58 \<notin> set a \<and> 58 \<notin> set b
             \<and> py_int rt a = Inr hours \<and> py_int rt b = Inr mins)
       \<longleftrightarrow> (\<exists>a b. t = a @ 58 # b \<and> 58 \<notin> set a \<and> 58 \<notin> set b
             \<and> integer_literal rt a \<and> integer_literal rt b)"
    unfolding py_int_accepts_iff[symmetric] by blast
  have "parse_time24 rt t = Inl ValueError
      \<longleftrightarrow> \<not> (\<exists>a b. t = a @ 58 # b \<and> 58 \<notin> set a \<and> 58 \<notin> set b
             \<and> integer_literal rt a \<and> integer_literal rt b)"
    unfolding parse_time24_failure split_two 3[symmetric] by blast
  then show ?thesis by (simp add: 1)
qed

text \<open>
  C4, as the code has it. Resolving an explicit time string fails, with \<open>ValueError\<close>
  and with no other error, whenever the string is not two colon-separated integers as
  \<open>int()\<close> reads them (\<open>integer_literal\<close>). Whenever it is two colon-separated integers
  with \<open>H\<close> in \<open>[0, 23]\<close> and \<open>M\<close> in \<open>[0, 59]\<close>, the resolution succeeds with
  \<open>minute = H * 60 + M\<close> in \<open>[0, 1439]\<close>. Every successful resolution returns the string
  that was sent, unchanged, as the label, and \<open>hours * 60 + mins\<close> as the minute.
  Integers outside the two ranges are left out of this statement.
\<close>

theorem explicit_time_resolution:
  assumes "body ''time24'' = Some t"
  shows "(\<not> (\<exists>a b. t = a @ [58] @ b \<and> 58 \<notin> set a \<and> 58 \<notin> set b
               \<and> integer_literal rt a \<and> integer_literal rt b)
            \<longrightarrow> resolve_minute rt clk body = Inl ValueError)
       \<and> (\<forall>e. resolve_minute rt clk body = Inl e \<longrightarrow> e = ValueError)
       \<and> (\<forall>a b hours mins.
             t = a @ [58] @ b \<and> py_int rt a = Inr hours \<and> py_int rt b = Inr mins
             \<and> 0 \<le> hours \<and> hours \<le> 23 \<and> 0 \<le> mins \<and> mins \<le> 59 \<longrightarrow>
               resolve_minute rt clk body = Inr (t, hours * 60 + mins)
             \<and> 0 \<le> hours * 60 + mins \<and> hours * 60 + mins \<le> 1439)
       \<and> (\<forall>label minute. resolve_minute rt clk body = Inr (label, minute) \<longrightarrow>
             label = t
           \<and> (\<exists>a b hours mins. t = a @ [58] @ b \<and> py_int rt a = Inr hours
                 \<and> py_int rt b = Inr mins \<and> minute = hours * 60 + mins))"
proof -
  have r: "resolve_minute rt clk body
     = (case parse_time24 rt t of Inl e \<Rightarrow> Inl e | Inr (hours, mins) \<Rightarrow> Inr (t, hours * 60 + mins))"
    using assms by (simp add: resolve_minute_def)
  have A: "\<not> (\<exists>a b. t = a @ [58] @ b \<and> 58 \<notin> set a \<and> 58 \<notin> set b
               \<and> integer_literal rt a \<and> integer_literal rt b)
            \<longrightarrow> resolve_minute rt clk body = Inl ValueError"
    using resolve_minute_failure_iff[of body t rt clk, OF assms] by blast
  have B: "\<forall>e. resolve_minute rt clk body = Inl e \<longrightarrow> e = ValueError"
    using parse_time24_error[of rt t] by (auto simp add: r split: sum.splits)
  have C: "resolve_minute rt clk body = Inr (t, hours * 60 + mins)
             \<and> 0 \<le> hours * 60 + mins \<and> hours * 60 + mins \<le> 1439"
    if "t = a @ [58] @ b" "py_int rt a = Inr hours" "py_int rt b = Inr mins"
      "0 \<le> hours" "hours \<le> 23" "0 \<le> mins" "mins \<le> 59" for a b hours mins
  proof -
    have "split 58 t = [a, b]"
      using that(1) py_int_no_colon[OF that(2)] py_int_no_colon[OF that(3)] by (simp add: split_two)
    then have "parse_time24 rt t = Inr (hours, mins)"
      using that(2,3) by (simp add: parse_time24_def)
    then show ?thesis using that(4-7) by (simp add: r)
  qed
  have D: "label = t
           \<and> (\<exists>a b hours mins. t = a @ [58] @ b \<and> py_int rt a = Inr hours
                 \<and> py_int rt b = Inr mins \<and> minute = hours * 60 + mins)"
    if "resolve_minute rt clk body = Inr (label, minute)" for label minute
  proof -
    from that obtain hours mins where p: "label = t" "parse_time24 rt t = Inr (hours, mins)"
      "minute = hours * 60 + mins"
      by (auto simp add: r split: sum.splits)
    from p(2) obtain a b where "t = a @ 58 # b" "py_int rt a = Inr hours" "py_int rt b = Inr mins"
      unfolding parse_time24_success split_two by blast
    with p(1,3) show ?thesis by auto
  qed
  show ?thesis using A B C D by blast
qed

theorem explicit_time_resolution_witness:
  "resolve_minute ascii_runtime example_clock [''time24'' \<mapsto> str_of ''bogus''] = Inl ValueError
   \<and> resolve_minute ascii_runtime example_clock [''time24'' \<mapsto> str_of ''07:05'']
       = Inr (str_of ''07:05'', 425)"
proof -
  have "58 \<notin> set (str_of ''bogus'')" by (simp add: str_of_def)
  then have "\<not> (\<exists>a b. str_of ''bogus'' = a @ [58] @ b \<and> 58 \<notin> set a \<and> 58 \<notin> set b
      \<and> integer_literal ascii_runtime a \<and> integer_literal ascii_runtime b)"
    by (metis in_set_conv_decomp append_Cons append_Nil)
  moreover have "[''time24'' \<mapsto> str_of ''bogus''] ''time24'' = Some (str_of ''bogus'')" by simp
  ultimately have 1: "resolve_minute ascii_runtime example_clock [''time24'' \<mapsto> str_of ''bogus''] = Inl ValueError"
    using explicit_time_resolution[of "[''time24'' \<mapsto> str_of ''bogus'']" "str_of ''bogus''"
        ascii_runtime example_clock]
    by blast
  have l: "int_max_str_digits ascii_runtime = 0 \<or> 2 \<le> int_max_str_digits ascii_runtime"
    by (simp add: ascii_runtime_def)
  have p: "py_int ascii_runtime [48, 55] = Inr 7" "py_int ascii_runtime [48, 53] = Inr 5"
    using py_int_two_digits[OF l, of 0 7] py_int_two_digits[OF l, of 0 5] by simp_all
  have s: "str_of ''07:05'' = [48, 55] @ [58] @ [48, 53]" by (simp add: str_of_def)
  have h: "[''time24'' \<mapsto> str_of ''07:05''] ''time24'' = Some (str_of ''07:05'')" by simp
  from explicit_time_resolution[of "[''time24'' \<mapsto> str_of ''07:05'']" "str_of ''07:05''"
      ascii_runtime example_clock, OF h]
  have "str_of ''07:05'' = [48, 55] @ [58] @ [48, 53] \<and> py_int ascii_runtime [48, 55] = Inr 7
      \<and> py_int ascii_runtime [48, 53] = Inr 5
      \<and> (0::int) \<le> 7 \<and> (7::int) \<le> 23 \<and> (0::int) \<le> 5 \<and> (5::int) \<le> 59 \<longrightarrow>
    resolve_minute ascii_runtime example_clock [''time24'' \<mapsto> str_of ''07:05'']
       = Inr (str_of ''07:05'', 7 * 60 + 5)"
    by blast
  with s p 1 show ?thesis by simp
qed

lemma out_of_range_lookup:
  "compose ascii_runtime example_clock example_pool [''time24'' \<mapsto> str_of ''25:00'']
     = Inl IndexError"
proof -
  obtain schedule where s: "generate_daily_schedule example_pool
      (get_today_seed (int (dt_year (now_seed example_clock))) (int (dt_month (now_seed example_clock)))
         (int (dt_day (now_seed example_clock)))) = Inr schedule"
    "length schedule = 3 * length example_pool"
    using generate_daily_schedule_total by blast
  have "getitem schedule 1500 = Inl IndexError"
    using s(2) by (simp add: getitem_nonneg example_pool_def)
  then show ?thesis
    by (simp add: compose_def resolve_minute_def twenty_five s(1))
qed

text \<open>
  The claim as the specification states it fails: \<open>25:00\<close> resolves, to minute 1500, and
  \<open>7:5\<close> resolves with the label \<open>7:5\<close>, which is not zero-padded. On the pool of two
  items \<open>compose\<close> then raises \<open>IndexError\<close> for \<open>25:00\<close>, at the lookup and not at the
  resolution.
\<close>

theorem range_not_checked_counterexample:
  "resolve_minute ascii_runtime example_clock [''time24'' \<mapsto> str_of ''25:00'']
     = Inr (str_of ''25:00'', 1500)
   \<and> resolve_minute ascii_runtime example_clock [''time24'' \<mapsto> str_of ''7:5'']
     = Inr (str_of ''7:5'', 425)
   \<and> compose ascii_runtime example_clock example_pool [''time24'' \<mapsto> str_of ''25:00'']
     = Inl IndexError"
  by (simp add: resolve_minute_def twenty_five seven_five out_of_range_lookup)

text \<open>
  C5. For every valid explicit time \<open>HH:MM\<close>, two digits each with \<open>H\<close> in \<open>[0, 23]\<close> and
  \<open>M\<close> in \<open>[0, 59]\<close>, the resolution returns the label and \<open>minute = H * 60 + M\<close>, which
  is in \<open>[0, 1439]\<close>. The interpreter's limit on the digits of \<open>int()\<close> is \<open>0\<close> or at
  least \<open>640\<close>, as Python requires.
\<close>

theorem valid_time_resolves:
  assumes "int_max_str_digits rt = 0 \<or> 640 \<le> int_max_str_digits rt"
    and "h \<le> 23" and "m \<le> 59"
    and "body ''time24'' = Some (format_02d (int h) @ [58] @ format_02d (int m))"
  shows "resolve_minute rt clk body
           = Inr (format_02d (int h) @ [58] @ format_02d (int m), int h * 60 + int m)
         \<and> 0 \<le> int h * 60 + int m \<and> int h * 60 + int m \<le> 1439"
proof -
  have "int_max_str_digits rt = 0 \<or> 2 \<le> int_max_str_digits rt" using assms(1) by auto
  then have "parse_time24 rt (format_02d (int h) @ [58] @ format_02d (int m)) = Inr (int h, int m)"
    using assms(2,3) by (intro parse_time24_label) simp_all
  then show ?thesis
    using assms(2,3,4) by (simp add: resolve_minute_def)
qed

theorem valid_time_resolves_witness:
  "resolve_minute ascii_runtime example_clock [''time24'' \<mapsto> str_of ''00:00''] = Inr (str_of ''00:00'', 0)
   \<and> resolve_minute ascii_runtime example_clock [''time24'' \<mapsto> str_of ''23:59''] = Inr (str_of ''23:59'', 1439)
   \<and> resolve_minute ascii_runtime example_clock [''time24'' \<mapsto> str_of ''12:34''] = Inr (str_of ''12:34'', 754)"
proof -
  have l: "int_max_str_digits ascii_runtime = 0 \<or> 640 \<le> int_max_str_digits ascii_runtime"
    by (simp add: ascii_runtime_def)
  have f: "format_02d 0 = [48, 48]" "format_02d 23 = [50, 51]" "format_02d 59 = [53, 57]"
    "format_02d 12 = [49, 50]" "format_02d 34 = [51, 52]"
    using format_02d_two[of 0] format_02d_two[of 23] format_02d_two[of 59] format_02d_two[of 12]
      format_02d_two[of 34]
    by simp_all
  show ?thesis
    using valid_time_resolves[OF l, of 0 0 "[''time24'' \<mapsto> str_of ''00:00'']" example_clock]
      valid_time_resolves[OF l, of 23 59 "[''time24'' \<mapsto> str_of ''23:59'']" example_clock]
      valid_time_resolves[OF l, of 12 34 "[''time24'' \<mapsto> str_of ''12:34'']" example_clock]
    by (simp add: f str_of_def)
qed

section \<open>The response\<close>

lemma encode_encodable: "encodable s \<Longrightarrow> \<exists>bytes. encode s = Inr bytes"
proof (induction s)
  case Nil
  then show ?case by simp
next
  case (Cons c cs)
  then obtain rest where "encode cs = Inr rest" by (auto simp: encodable_def)
  moreover have "\<exists>bs. utf8_char c = Inr bs"
    using Cons.prems by (auto simp: utf8_char_def encodable_def)
  ultimately show ?case by auto
qed

lemma encodable_append: "encodable (a @ b) \<longleftrightarrow> encodable a \<and> encodable b"
  by (simp add: encodable_def)

lemma replace_single: "replace old [new] s = map (\<lambda>c. if c = old then new else c) s"
  by (induction s) (simp_all add: replace_def)

lemma encodable_replace: "encodable s \<Longrightarrow> encodable (replace 8211 [45] s)"
  by (induction s) (simp_all add: replace_def encodable_def)

lemma length_word_bytes: "length (word_bytes w) = 4"
  by (simp add: word_bytes_def)

lemma length_md5_digest: "length (md5_digest msg) = 16"
  by (simp add: md5_digest_def Let_def length_word_bytes split: prod.splits)

lemma byte_word_bytes: "b \<in> set (word_bytes w) \<Longrightarrow> b < 256"
  by (auto simp: word_bytes_def)

lemma byte_md5_digest: "b \<in> set (md5_digest msg) \<Longrightarrow> b < 256"
  by (auto simp: md5_digest_def Let_def split: prod.splits dest: byte_word_bytes)

lemma length_hex_pairs: "length (concat (map (\<lambda>b. [f b, g b]) bs)) = 2 * length bs"
  by (induction bs) simp_all

lemma length_md5_hexdigest: "length (md5_hexdigest msg) = 32"
  by (simp add: md5_hexdigest_def length_hex_pairs length_md5_digest)

lemma hex_digit_range: "n < 16 \<Longrightarrow> (48 \<le> hex_digit n \<and> hex_digit n \<le> 57) \<or> (97 \<le> hex_digit n \<and> hex_digit n \<le> 102)"
  by (auto simp: hex_digit_def)

lemma md5_hexdigest_chars:
  assumes "c \<in> set (md5_hexdigest msg)"
  shows "(48 \<le> c \<and> c \<le> 57) \<or> (97 \<le> c \<and> c \<le> 102)"
proof -
  from assms obtain b where b: "b \<in> set (md5_digest msg)" "c = hex_digit (b div 16) \<or> c = hex_digit (b mod 16)"
    by (auto simp: md5_hexdigest_def)
  have "b < 256" using b(1) by (rule byte_md5_digest)
  then have "b div 16 < 16" "b mod 16 < 16" by simp_all
  then show ?thesis using b(2) hex_digit_range by blast
qed

lemma format_content_fields:
  assumes "format_content current_item t = Inr r"
  shows "time24 r = t \<and> poem r = t @ [32, 8212, 32] @ replace 8211 [45] (content current_item)
       \<and> generate_poem_id t (poem r) = Inr (poemId r)
       \<and> preferredFont r = str_of ''INTER'' \<and> screensaver r = False"
  using assms by (auto simp: format_content_def Let_def split: sum.splits)

lemma format_content_encodable:
  assumes "encodable t" "encodable (content current_item)"
  shows "\<exists>poem_id. format_content current_item t
     = Inr \<lparr>poemId = poem_id, time24 = t,
            poem = t @ [32, 8212, 32] @ replace 8211 [45] (content current_item),
            preferredFont = str_of ''INTER'', screensaver = False\<rparr>"
proof -
  have "encodable [45]" "encodable [32, 8212, 32]" by (simp_all add: encodable_def)
  moreover have "encodable (replace 8211 [45] (content current_item))"
    using assms(2) by (rule encodable_replace)
  ultimately have "encodable (t @ [45] @ t @ [32, 8212, 32] @ replace 8211 [45] (content current_item))"
    using assms(1) by (simp only: encodable_append)
  from encode_encodable[OF this] show ?thesis
    by (auto simp: format_content_def generate_poem_id_def Let_def)
qed

lemma compose_steps:
  assumes "compose rt clk ITEMS body = Inr r"
  shows "\<exists>t minute schedule current_item.
           resolve_minute rt clk body = Inr (t, minute)
         \<and> generate_daily_schedule ITEMS
             (get_today_seed (int (dt_year (now_seed clk))) (int (dt_month (now_seed clk)))
                (int (dt_day (now_seed clk)))) = Inr schedule
         \<and> getitem schedule minute = Inr current_item
         \<and> current_item \<in> set ITEMS
         \<and> format_content current_item t = Inr r"
proof -
  from assms obtain t minute schedule current_item where s:
    "resolve_minute rt clk body = Inr (t, minute)"
    "generate_daily_schedule ITEMS
             (get_today_seed (int (dt_year (now_seed clk))) (int (dt_month (now_seed clk)))
                (int (dt_day (now_seed clk)))) = Inr schedule"
    "getitem schedule minute = Inr current_item"
    "format_content current_item t = Inr r"
    by (auto simp: compose_def split: sum.splits prod.splits)
  obtain schedule' where "generate_daily_schedule ITEMS
             (get_today_seed (int (dt_year (now_seed clk))) (int (dt_month (now_seed clk)))
                (int (dt_day (now_seed clk)))) = Inr schedule'" "mset schedule' = mset (tripled ITEMS)"
    using generate_daily_schedule_total by blast
  with s(2) have "mset schedule = mset ITEMS + mset ITEMS + mset ITEMS"
    by (simp add: mset_tripled)
  then have "set_mset (mset schedule) = set_mset (mset ITEMS + mset ITEMS + mset ITEMS)" by simp
  then have "set schedule = set ITEMS" by simp
  moreover have "current_item \<in> set schedule" using s(3) by (rule getitem_member)
  ultimately show ?thesis using s by blast
qed

lemma parse_time24_chars:
  assumes "parse_time24 rt t = Inr (hours, mins)" and "c \<in> set t"
  shows "c = 58 \<or> is_space c \<or> c = 43 \<or> c = 45 \<or> literal_char rt c"
proof -
  from assms(1) obtain a b where ab: "split 58 t = [a, b]" "py_int rt a = Inr hours" "py_int rt b = Inr mins"
    unfolding parse_time24_success by blast
  then have "t = a @ 58 # b" by (simp add: split_two)
  with assms(2) have "c \<in> set a \<or> c = 58 \<or> c \<in> set b" by auto
  then show ?thesis using py_int_chars[OF ab(2)] py_int_chars[OF ab(3)] by blast
qed

lemma en_dash_not_in_time24:
  assumes "unicode_decimal rt 8211 = None" and "parse_time24 rt t = Inr (hours, mins)"
  shows "8211 \<notin> set t"
proof
  assume "8211 \<in> set t"
  from parse_time24_chars[OF assms(2) this] show False
    using assms(1) by (simp add: is_space_def literal_char_def is_digit_def digit_value_def)
qed

lemma decimal_chars: "c \<in> set (decimal n) \<Longrightarrow> 48 \<le> c \<and> c \<le> 57"
proof (induction n rule: decimal.induct)
  case (1 n)
  show ?case
  proof (cases "n < 10")
    case True
    then show ?thesis using "1.prems" by (subst (asm) decimal.simps) simp
  next
    case False
    then have "c \<in> set (decimal (n div 10)) \<or> c = 48 + n mod 10"
      using "1.prems" by (subst (asm) decimal.simps) auto
    moreover have "n mod 10 < 10" by simp
    ultimately show ?thesis using "1.IH"[OF False] by auto
  qed
qed

lemma strftime_HM_chars: "c \<in> set (strftime_HM dt) \<Longrightarrow> c = 58 \<or> (48 \<le> c \<and> c \<le> 57)"
  by (auto simp: strftime_HM_def format_02d_def dest: decimal_chars split: if_splits)

lemma en_dash_not_in_label:
  assumes "unicode_decimal rt 8211 = None" and "resolve_minute rt clk body = Inr (t, minute)"
  shows "8211 \<notin> set t"
proof (cases "body ''time24''")
  case (Some t')
  with assms(2) obtain hours mins where "parse_time24 rt t' = Inr (hours, mins)" "t = t'"
    by (auto simp: resolve_minute_def split: sum.splits)
  then show ?thesis using en_dash_not_in_time24[OF assms(1)] by blast
next
  case None
  with assms(2) have "\<exists>dt. t = strftime_HM dt"
    by (auto simp: resolve_minute_def split: option.splits sum.splits)
  then show ?thesis using strftime_HM_chars[of 8211] by auto
qed

lemma compose_time24:
  assumes "body ''time24'' = Some t" and "parse_time24 rt t = Inr (hours, mins)"
    and "- 3 * int (length ITEMS) \<le> hours * 60 + mins" and "hours * 60 + mins < 3 * int (length ITEMS)"
    and "encodable t" and "\<forall>item\<in>set ITEMS. encodable (content item)"
  shows "\<exists>schedule poem_id.
           generate_daily_schedule ITEMS
             (get_today_seed (int (dt_year (now_seed clk))) (int (dt_month (now_seed clk)))
                (int (dt_day (now_seed clk)))) = Inr schedule
         \<and> length schedule = 3 * length ITEMS
         \<and> getitem schedule (hours * 60 + mins)
             = Inr (schedule ! nat (if hours * 60 + mins < 0
                                    then int (length schedule) + (hours * 60 + mins)
                                    else hours * 60 + mins))
         \<and> compose rt clk ITEMS body
             = Inr \<lparr>poemId = poem_id, time24 = t,
                    poem = t @ [32, 8212, 32] @ replace 8211 [45]
                      (content (schedule ! nat (if hours * 60 + mins < 0
                                                then int (length schedule) + (hours * 60 + mins)
                                                else hours * 60 + mins))),
                    preferredFont = str_of ''INTER'', screensaver = False\<rparr>"
proof -
  define seed where "seed = get_today_seed (int (dt_year (now_seed clk))) (int (dt_month (now_seed clk)))
                (int (dt_day (now_seed clk)))"
  define m where "m = hours * 60 + mins"
  obtain schedule where s: "generate_daily_schedule ITEMS seed = Inr schedule"
    "mset schedule = mset (tripled ITEMS)" "length schedule = 3 * length ITEMS"
    using generate_daily_schedule_total by blast
  define k where "k = nat (if m < 0 then int (length schedule) + m else m)"
  have g: "getitem schedule m = Inr (schedule ! k)"
    using assms(3,4) s(3) by (cases "m < 0") (simp_all add: getitem_negative getitem_nonneg m_def[symmetric] k_def)
  have "set_mset (mset schedule) = set_mset (mset ITEMS + mset ITEMS + mset ITEMS)"
    using s(2) by (simp add: mset_tripled)
  then have "set schedule = set ITEMS" by simp
  moreover have "schedule ! k \<in> set schedule" using g by (rule getitem_member)
  ultimately have "encodable (content (schedule ! k))" using assms(6) by blast
  from format_content_encodable[OF assms(5) this] obtain poem_id where
    f: "format_content (schedule ! k) t = Inr \<lparr>poemId = poem_id, time24 = t,
            poem = t @ [32, 8212, 32] @ replace 8211 [45] (content (schedule ! k)),
            preferredFont = str_of ''INTER'', screensaver = False\<rparr>"
    by blast
  have r: "resolve_minute rt clk body = Inr (t, m)"
    using assms(1,2) by (simp add: resolve_minute_def m_def)
  have c: "compose rt clk ITEMS body = format_content (schedule ! k) t"
    by (simp add: compose_def r seed_def[symmetric] s(1) g)
  show ?thesis
  proof (intro exI conjI)
    show "generate_daily_schedule ITEMS
             (get_today_seed (int (dt_year (now_seed clk))) (int (dt_month (now_seed clk)))
                (int (dt_day (now_seed clk)))) = Inr schedule"
      using s(1) by (simp only: seed_def)
    show "length schedule = 3 * length ITEMS" by (rule s(3))
    show "getitem schedule (hours * 60 + mins)
             = Inr (schedule ! nat (if hours * 60 + mins < 0
                                    then int (length schedule) + (hours * 60 + mins)
                                    else hours * 60 + mins))"
      using g by (simp only: m_def k_def)
    show "compose rt clk ITEMS body
             = Inr \<lparr>poemId = poem_id, time24 = t,
                    poem = t @ [32, 8212, 32] @ replace 8211 [45]
                      (content (schedule ! nat (if hours * 60 + mins < 0
                                                then int (length schedule) + (hours * 60 + mins)
                                                else hours * 60 + mins))),
                    preferredFont = str_of ''INTER'', screensaver = False\<rparr>"
      using f c by (simp only: m_def k_def)
  qed
qed

lemma minus_one_thirty: "parse_time24 ascii_runtime (str_of ''-1:30'') = Inr (- 1, 30)"
proof -
  have sp: "split 58 (str_of ''-1:30'') = [str_of ''-1'', str_of ''30'']"
    by (simp add: split_two str_of_def)
  have a: "py_int ascii_runtime (str_of ''-1'') = Inr (- 1)"
    by (simp add: py_int_def str_of_def is_space_def sign_and_rest_def literal_char_def is_digit_def
        digit_value_def well_formed_literal_def within_digit_limit_def decimal_value_def
        ascii_runtime_def)
  have b: "py_int ascii_runtime (str_of ''30'') = Inr 30"
    by (simp add: py_int_def str_of_def is_space_def sign_and_rest_def literal_char_def is_digit_def
        digit_value_def well_formed_literal_def within_digit_limit_def decimal_value_def
        ascii_runtime_def)
  show ?thesis by (simp add: parse_time24_def sp a b)
qed

lemma one_past_midnight: "parse_time24 ascii_runtime (str_of ''00:01'') = Inr (0, 1)"
proof -
  have "format_02d 0 = [48, 48]" "format_02d 1 = [48, 49]"
    using format_02d_two[of 0] format_02d_two[of 1] by simp_all
  moreover have "parse_time24 ascii_runtime (format_02d (int 0) @ [58] @ format_02d (int 1)) = Inr (int 0, int 1)"
    by (rule parse_time24_label) (simp_all add: ascii_runtime_def)
  ultimately show ?thesis by (simp add: str_of_def)
qed

lemma example_response:
  "\<exists>poem_id. compose ascii_runtime example_clock dash_pool [''time24'' \<mapsto> str_of ''00:01'']
      = Inr \<lparr>poemId = poem_id, time24 = str_of ''00:01'',
             poem = str_of ''00:01'' @ [32, 8212, 32, 65, 45, 66],
             preferredFont = str_of ''INTER'', screensaver = False\<rparr>"
proof -
  have h: "[''time24'' \<mapsto> str_of ''00:01''] ''time24'' = Some (str_of ''00:01'')"
    "- 3 * int (length dash_pool) \<le> 0 * 60 + 1" "(0::int) * 60 + 1 < 3 * int (length dash_pool)"
    "encodable (str_of ''00:01'')" "\<forall>item\<in>set dash_pool. encodable (content item)"
    by (simp_all add: dash_pool_def encodable_def str_of_def)
  from compose_time24[of "[''time24'' \<mapsto> str_of ''00:01'']" "str_of ''00:01''" ascii_runtime 0 1
      dash_pool example_clock, OF h(1) one_past_midnight h(2-5)]
  obtain schedule poem_id where c:
    "generate_daily_schedule dash_pool
             (get_today_seed (int (dt_year (now_seed example_clock))) (int (dt_month (now_seed example_clock)))
                (int (dt_day (now_seed example_clock)))) = Inr schedule"
    "length schedule = 3 * length dash_pool"
    "compose ascii_runtime example_clock dash_pool [''time24'' \<mapsto> str_of ''00:01'']
      = Inr \<lparr>poemId = poem_id, time24 = str_of ''00:01'',
             poem = str_of ''00:01'' @ [32, 8212, 32] @ replace 8211 [45]
               (content (schedule ! nat (if (0::int) * 60 + 1 < 0 then int (length schedule) + (0 * 60 + 1) else 0 * 60 + 1))),
             preferredFont = str_of ''INTER'', screensaver = False\<rparr>"
    by blast
  obtain schedule' where "generate_daily_schedule dash_pool
             (get_today_seed (int (dt_year (now_seed example_clock))) (int (dt_month (now_seed example_clock)))
                (int (dt_day (now_seed example_clock)))) = Inr schedule'"
    "mset schedule' = mset (tripled dash_pool)"
    using generate_daily_schedule_total by blast
  with c(1) have "set_mset (mset schedule) = set_mset (mset (tripled dash_pool))" by simp
  then have "set schedule = set dash_pool" by (simp add: mset_tripled)
  moreover have "schedule ! 1 \<in> set schedule" using c(2) by (simp add: dash_pool_def)
  ultimately have "content (schedule ! 1) = [65, 8211, 66]" by (auto simp: dash_pool_def)
  then show ?thesis using c(3) by (simp add: replace_def)
qed

text \<open>
  C8. In every response of \<open>compose\<close> the poem is the label, an em dash between two
  blanks, and the content of an item of the pool with every en dash replaced by a hyphen;
  no en dash remains in the poem. (The en dash is not a decimal digit of the
  interpreter's Unicode database, so a label that \<open>int()\<close> accepted has none.)
\<close>

theorem poem_has_no_en_dash:
  assumes "unicode_decimal rt 8211 = None" and "compose rt clk ITEMS body = Inr r"
  shows "(\<exists>current_item\<in>set ITEMS.
            poem r = time24 r @ [32, 8212, 32]
                       @ map (\<lambda>c. if c = 8211 then 45 else c) (content current_item))
         \<and> 8211 \<notin> set (poem r)"
proof -
  from compose_steps[OF assms(2)] obtain t minute current_item where s:
    "resolve_minute rt clk body = Inr (t, minute)" "current_item \<in> set ITEMS"
    "format_content current_item t = Inr r"
    by blast
  note f = format_content_fields[OF s(3)]
  have p: "poem r = time24 r @ [32, 8212, 32] @ map (\<lambda>c. if c = 8211 then 45 else c) (content current_item)"
    using f by (simp add: replace_single)
  have "8211 \<notin> set t" using assms(1) s(1) by (rule en_dash_not_in_label)
  then have "8211 \<notin> set (poem r)" using f by (auto simp: replace_single)
  with p s(2) show ?thesis by blast
qed

theorem poem_has_no_en_dash_witness:
  "\<exists>r. compose ascii_runtime example_clock dash_pool [''time24'' \<mapsto> str_of ''00:01''] = Inr r
       \<and> poem r = str_of ''00:01'' @ [32, 8212, 32, 65, 45, 66]
       \<and> 8211 \<notin> set (poem r)"
proof -
  obtain r where r: "compose ascii_runtime example_clock dash_pool [''time24'' \<mapsto> str_of ''00:01''] = Inr r"
    "time24 r = str_of ''00:01''"
    using example_response by auto
  have "unicode_decimal ascii_runtime 8211 = None" by (simp add: ascii_runtime_def)
  from poem_has_no_en_dash[OF this r(1)] r show ?thesis by (auto simp: dash_pool_def)
qed

text \<open>
  C9. In every response of \<open>compose\<close> the identifier is the first 8 characters of the
  MD5 hex digest of the UTF-8 bytes of \<open>"{time24}-{poem}"\<close>: 8 lower-case hexadecimal
  digits. Two responses with the same label and the same poem have the same identifier,
  whatever the requests were.
\<close>

theorem poem_id_is_hash_prefix:
  assumes "compose rt clk (ITEMS :: 'a item list) body = Inr r"
  shows "(\<exists>bytes. encode (time24 r @ [45] @ poem r) = Inr bytes
            \<and> poemId r = take 8 (md5_hexdigest bytes))
         \<and> generate_poem_id (time24 r) (poem r) = Inr (poemId r)
         \<and> length (poemId r) = 8
         \<and> (\<forall>c\<in>set (poemId r). (48 \<le> c \<and> c \<le> 57) \<or> (97 \<le> c \<and> c \<le> 102))
         \<and> (\<forall>rt' clk' ITEMS' body' r'.
               compose rt' clk' (ITEMS' :: 'a item list) body' = Inr r'
               \<and> time24 r' = time24 r \<and> poem r' = poem r \<longrightarrow> poemId r' = poemId r)"
proof -
  have g: "generate_poem_id (time24 x) (poem x) = Inr (poemId x)"
    if "compose rt' clk' (ITEMS' :: 'a item list) body' = Inr x" for rt' clk' ITEMS' body' x
  proof -
    from compose_steps[OF that] obtain t and current_item :: "'a item"
      where "format_content current_item t = Inr x"
      by auto
    from format_content_fields[OF this] show ?thesis by metis
  qed
  note i = g[OF assms]
  then obtain bytes where b: "encode (time24 r @ [45] @ poem r) = Inr bytes"
    "poemId r = take 8 (md5_hexdigest bytes)"
    by (auto simp: generate_poem_id_def Let_def split: sum.splits)
  have l: "length (poemId r) = 8" by (simp add: b(2) length_md5_hexdigest)
  have h: "(48 \<le> c \<and> c \<le> 57) \<or> (97 \<le> c \<and> c \<le> 102)" if "c \<in> set (poemId r)" for c
    using that md5_hexdigest_chars[of c bytes] by (auto simp: b(2) dest: in_set_takeD)
  have d: "poemId r' = poemId r"
    if "compose rt' clk' (ITEMS' :: 'a item list) body' = Inr r'" "time24 r' = time24 r" "poem r' = poem r"
    for rt' clk' ITEMS' body' r'
    using g[OF that(1)] i that(2,3) by simp
  show ?thesis using b i l h d by blast
qed

theorem poem_id_is_hash_prefix_witness:
  "\<exists>r bytes. compose ascii_runtime example_clock dash_pool [''time24'' \<mapsto> str_of ''00:01''] = Inr r
       \<and> encode (str_of ''00:01-00:01'' @ [32, 8212, 32, 65, 45, 66]) = Inr bytes
       \<and> poemId r = take 8 (md5_hexdigest bytes) \<and> length (poemId r) = 8"
proof -
  obtain r where r: "compose ascii_runtime example_clock dash_pool [''time24'' \<mapsto> str_of ''00:01''] = Inr r"
    "time24 r = str_of ''00:01''" "poem r = str_of ''00:01'' @ [32, 8212, 32, 65, 45, 66]"
    using example_response by auto
  from poem_id_is_hash_prefix[OF r(1)] obtain bytes where
    "encode (time24 r @ [45] @ poem r) = Inr bytes" "poemId r = take 8 (md5_hexdigest bytes)"
    "length (poemId r) = 8"
    by blast
  then show ?thesis using r by (auto simp: str_of_def)
qed

text \<open>
  C10. When the explicit time string parses as two integers whose total
  \<open>m = hours * 60 + mins\<close> is negative and \<open>-m\<close> is at most the length of the schedule,
  \<open>compose\<close> does not fail: the lookup \<open>schedule[m]\<close> is the entry at
  \<open>len(schedule) + m\<close>, and the response is built from it. (The label and the contents
  have no surrogate code point, so that the identifier can be computed.)
\<close>

theorem negative_minute_wraps:
  assumes "body ''time24'' = Some t" and "parse_time24 rt t = Inr (hours, mins)"
    and "hours * 60 + mins < 0" and "- (hours * 60 + mins) \<le> 3 * int (length ITEMS)"
    and "encodable t" and "\<forall>item\<in>set ITEMS. encodable (content item)"
  shows "\<exists>schedule poem_id.
           generate_daily_schedule ITEMS
             (get_today_seed (int (dt_year (now_seed clk))) (int (dt_month (now_seed clk)))
                (int (dt_day (now_seed clk)))) = Inr schedule
         \<and> length schedule = 3 * length ITEMS
         \<and> getitem schedule (hours * 60 + mins)
             = Inr (schedule ! nat (int (length schedule) + (hours * 60 + mins)))
         \<and> compose rt clk ITEMS body
             = Inr \<lparr>poemId = poem_id, time24 = t,
                    poem = t @ [32, 8212, 32] @ replace 8211 [45]
                      (content (schedule ! nat (int (length schedule) + (hours * 60 + mins)))),
                    preferredFont = str_of ''INTER'', screensaver = False\<rparr>"
proof -
  have lo: "- 3 * int (length ITEMS) \<le> hours * 60 + mins" using assms(4) by simp
  have hi: "hours * 60 + mins < 3 * int (length ITEMS)" using assms(3) by linarith
  from compose_time24[of body t rt hours mins ITEMS clk, OF assms(1,2) lo hi assms(5,6)]
  show ?thesis using assms(3) by simp
qed

theorem negative_minute_wraps_witness:
  "\<exists>schedule r.
      generate_daily_schedule ten_pool 20240101 = Inr schedule \<and> length schedule = 30
    \<and> getitem schedule (- 30) = Inr (schedule ! 0)
    \<and> compose ascii_runtime example_clock ten_pool [''time24'' \<mapsto> str_of ''-1:30''] = Inr r
    \<and> time24 r = str_of ''-1:30''
    \<and> poem r = str_of ''-1:30'' @ [32, 8212, 32] @ replace 8211 [45] (content (schedule ! 0))"
proof -
  have h: "[''time24'' \<mapsto> str_of ''-1:30''] ''time24'' = Some (str_of ''-1:30'')"
    "(- 1) * 60 + 30 < (0::int)" "- ((- 1) * 60 + 30) \<le> 3 * int (length ten_pool)"
    "encodable (str_of ''-1:30'')" "\<forall>item\<in>set ten_pool. encodable (content item)"
    by (auto simp: ten_pool_def encodable_def str_of_def)
  have l: "length ten_pool = 10" by (simp add: ten_pool_def)
  have s: "get_today_seed (int (dt_year (now_seed example_clock))) (int (dt_month (now_seed example_clock)))
                (int (dt_day (now_seed example_clock))) = 20240101"
    by (simp add: get_today_seed_def example_clock_def new_year_noon_def)
  from negative_minute_wraps[of "[''time24'' \<mapsto> str_of ''-1:30'']" "str_of ''-1:30''" ascii_runtime
      "- 1" 30 ten_pool example_clock, OF h(1) minus_one_thirty h(2-5)]
  show ?thesis unfolding s l by auto
qed

end
